theory Spec2Isabelle
  imports Complex_Main "HOL-Library.Multiset" "HOL-Library.Sublist"
begin

section \<open>Data model of \<open>basicMM.py\<close>\<close>

text \<open>
  The bot \<open>PolymarketLiquidityBot\<close> keeps three lists (\<open>orders\<close>, \<open>markets\<close>,
  \<open>pnl_history\<close>) and talks to the exchange through \<open>self.client\<close>. The client, the
  clock and the helper \<open>get_market_min_size\<close> are not part of the source file, so every
  call to them is answered by an environment (record \<open>env\<close> below): a reply is either a
  raised exception (\<open>Inl\<close>) or a returned value (\<open>Inr\<close>).

  Numbers are real numbers. In \<open>get_pnl\<close> and in the arithmetic of \<open>run_strategy\<close>
  every float operation of the source is the exact operation followed by \<open>fl\<close>, the
  rounding to the nearest double (section \<open>Double-precision arithmetic\<close>); comparisons,
  \<open>max\<close> and \<open>min\<close> are exact in any arithmetic. The sum and the halving of
  \<open>get_mid_price\<close> are read over the exact numbers, and the literals \<open>0.01\<close> and
  \<open>0.99\<close> are the decimal numbers. Infinities and NaN are outside the model.
\<close>

datatype error = Exc string
  \<comment> \<open>a raised Python exception \<open>e\<close>; the string is \<open>str(e)\<close>\<close>

fun msg_of :: "error \<Rightarrow> string" where
  "msg_of (Exc m) = m"

text \<open>
  A row of the list returned by \<open>client.get_orders\<close>. Only two expressions of the source
  read it: \<open>order['side']\<close> and \<open>float(order['price'])\<close>. Either may raise (a missing
  key, a value \<open>float\<close> rejects), so each field holds the outcome of its expression.
\<close>

record book_order =
  bo_side :: "error + string"
  bo_price :: "error + real"

section \<open>\<open>get_mid_price\<close>\<close>

text \<open>
  \<open>[order for order in orders if order['side'] == s]\<close>: the comprehension stops at the
  first row whose \<open>order['side']\<close> raises.
\<close>

fun filter_side :: "string \<Rightarrow> book_order list \<Rightarrow> error + book_order list" where
  "filter_side s [] = Inr []"
| "filter_side s (x # xs) =
     (case bo_side x of
        Inl e \<Rightarrow> Inl e
      | Inr sd \<Rightarrow>
          (case filter_side s xs of
             Inl e \<Rightarrow> Inl e
           | Inr r \<Rightarrow> Inr (if sd = s then x # r else r)))"

text \<open>
  \<open>max(bids, key=lambda x: float(x['price']))\<close> and the matching \<open>min\<close>: Python keeps
  the first element whose key is extremal, replacing the running best only on a strict
  comparison, and raises as soon as a key raises. \<open>scan_best\<close> is the loop over the
  remaining elements, carrying the best element and its key.
\<close>

fun scan_best :: "(real \<Rightarrow> real \<Rightarrow> bool) \<Rightarrow> book_order \<Rightarrow> real \<Rightarrow> book_order list
    \<Rightarrow> error + book_order" where
  "scan_best better b k [] = Inr b"
| "scan_best better b k (x # xs) =
     (case bo_price x of
        Inl e \<Rightarrow> Inl e
      | Inr k' \<Rightarrow> if better k' k then scan_best better x k' xs else scan_best better b k xs)"

fun py_best :: "(real \<Rightarrow> real \<Rightarrow> bool) \<Rightarrow> book_order list \<Rightarrow> error + book_order" where
  "py_best better [] = Inl (Exc ''max() arg is an empty sequence'')"
| "py_best better (x # xs) =
     (case bo_price x of
        Inl e \<Rightarrow> Inl e
      | Inr k \<Rightarrow> scan_best better x k xs)"

definition py_max_by_price :: "book_order list \<Rightarrow> error + book_order" where
  "py_max_by_price bids = py_best (\<lambda>k' k. k' > k) bids"

definition py_min_by_price :: "book_order list \<Rightarrow> error + book_order" where
  "py_min_by_price asks = py_best (\<lambda>k' k. k' < k) asks"

text \<open>
  The \<open>try\<close> block of \<open>get_mid_price\<close>, given the reply of \<open>client.get_orders\<close>.
\<close>

definition get_mid_price_body :: "error + book_order list \<Rightarrow> error + real" where
  "get_mid_price_body reply =
     (case reply of
        Inl e \<Rightarrow> Inl e
      | Inr orders \<Rightarrow>
     (case filter_side ''buy'' orders of
        Inl e \<Rightarrow> Inl e
      | Inr bids \<Rightarrow>
     (case filter_side ''sell'' orders of
        Inl e \<Rightarrow> Inl e
      | Inr asks \<Rightarrow>
          if bids = [] \<and> asks = [] then Inr (1 / 2)
          else
            (case (if bids = [] then Inr 0
                   else (case py_max_by_price bids of
                           Inl e \<Rightarrow> Inl e
                         | Inr best_bid \<Rightarrow> bo_price best_bid)) of
               Inl e \<Rightarrow> Inl e
             | Inr best_bid_price \<Rightarrow>
            (case (if asks = [] then Inr 1
                   else (case py_min_by_price asks of
                           Inl e \<Rightarrow> Inl e
                         | Inr best_ask \<Rightarrow> bo_price best_ask)) of
               Inl e \<Rightarrow> Inl e
             | Inr best_ask_price \<Rightarrow> Inr ((best_bid_price + best_ask_price) / 2))))))"

text \<open>\<open>except Exception\<close>: any exception of the body becomes the fallback \<open>0.5\<close>.\<close>

definition mid_price_of :: "error + book_order list \<Rightarrow> real" where
  "mid_price_of reply = (case get_mid_price_body reply of Inl e \<Rightarrow> 1 / 2 | Inr p \<Rightarrow> p)"

section \<open>The bot, its registry and the environment\<close>

text \<open>
  \<open>BUY\<close> and \<open>SELL\<close> are the two side constants the strategy imports from the client
  library and passes to \<open>place_limit_order\<close>.
\<close>

datatype side = BUY | SELL

text \<open>An entry of \<open>self.orders\<close>: the dict \<open>order_info\<close> built in \<open>place_limit_order\<close>.\<close>

record order_info =
  o_id :: string
  o_market_id :: string
  o_token_id :: string
  o_side :: side
  o_size :: real
  o_price :: real
  o_time :: string
  o_status :: string

text \<open>The keyword arguments of \<open>OrderArgs(...)\<close>.\<close>

record order_args =
  a_price :: real
  a_size :: real
  a_side :: side
  a_token_id :: string
  a_fee_rate_bps :: int

text \<open>
  A response dict, as far as the source reads or builds it: \<open>resp.get('orderID')\<close>,
  \<open>resp.get('canceled', [])\<close>, and the keys \<open>'success'\<close> and \<open>'errorMsg'\<close> of the
  failure result. \<open>None\<close> is an absent key.
\<close>

record resp =
  r_orderID :: "string option"
  r_canceled :: "string list option"
  r_success :: "bool option"
  r_errorMsg :: "string option"

text \<open>An element of \<open>self.pnl_history\<close>.\<close>

record snapshot =
  timestamp :: string
  realized_pnl :: real
  rewards :: real
  total_pnl :: real

text \<open>
  A row of the list returned by \<open>client.get_trades\<close>, as the outcomes of reading it:
  \<open>trade['status']\<close> and \<open>trade['side']\<close> are strings; \<open>t_size\<close> and \<open>t_price\<close>
  are the numbers that \<open>trade['size']\<close> and \<open>trade['price']\<close> denote, which
  \<open>float(...)\<close> then rounds to a double. \<open>Inl\<close> is a missing key or a value \<open>float\<close>
  rejects.
\<close>

record trade =
  t_status :: "error + string"
  t_size :: "error + real"
  t_price :: "error + real"
  t_side :: "error + string"

text \<open>
  The bot object. \<open>orders\<close> and \<open>pnl_history\<close> are the fields of the class
  (\<open>markets\<close> is read by none of the functions below and is left out). \<open>tick\<close> counts
  the calls made to the environment so far, and \<open>sent\<close> lists the orders handed to
  \<open>client.post_order\<close>; both only record what the code did.
\<close>

record bot =
  orders :: "order_info list"
  pnl_history :: "snapshot list"
  tick :: nat
  sent :: "order_args list"

text \<open>
  The environment: what each outside call answers when it is the \<open>n\<close>-th call, given
  its arguments. \<open>e_min_size\<close> is the outcome of
  \<open>float(self.get_market_min_size(market_id))\<close>; the class defines no method of that name,
  so in the file as it stands this call raises \<open>AttributeError\<close>, one of the replies an
  environment can give. \<open>e_create_order\<close> is \<open>client.create_order\<close> (the signed order
  is taken to carry the arguments unchanged), \<open>e_post_order\<close> is \<open>client.post_order\<close>
  followed by \<open>resp.get\<close> (so \<open>Inl\<close> also covers a response that is no dict),
  \<open>e_time\<close> is \<open>time.time()\<close> and \<open>e_now\<close> is \<open>datetime.datetime.now().isoformat()\<close>.
\<close>

record env =
  e_get_orders :: "nat \<Rightarrow> string \<Rightarrow> string \<Rightarrow> error + book_order list"
  e_min_size :: "nat \<Rightarrow> string \<Rightarrow> error + real"
  e_create_order :: "nat \<Rightarrow> order_args \<Rightarrow> error + unit"
  e_post_order :: "nat \<Rightarrow> order_args \<Rightarrow> error + resp"
  e_cancel :: "nat \<Rightarrow> string \<Rightarrow> error + resp"
  e_get_address :: "nat \<Rightarrow> error + string"
  e_get_trades :: "nat \<Rightarrow> string \<Rightarrow> error + trade list"
  e_time :: "nat \<Rightarrow> real"
  e_now :: "nat \<Rightarrow> string"

definition init_bot :: bot where
  "init_bot = \<lparr>orders = [], pnl_history = [], tick = 0, sent = []\<rparr>"

definition bump :: "bot \<Rightarrow> bot" where
  "bump b = b\<lparr>tick := Suc (tick b)\<rparr>"

definition get_mid_price :: "env \<Rightarrow> string \<Rightarrow> string \<Rightarrow> bot \<Rightarrow> real \<times> bot" where
  "get_mid_price env market_id token_id b =
     (mid_price_of (e_get_orders env (tick b) market_id token_id), bump b)"

section \<open>\<open>place_limit_order\<close> and \<open>cancel_order\<close>\<close>

text \<open>The dict \<open>{'success': False, 'errorMsg': str(e)}\<close> of both \<open>except\<close> blocks.\<close>

definition failure_result :: "error \<Rightarrow> resp" where
  "failure_result e =
     \<lparr>r_orderID = None, r_canceled = None, r_success = Some False, r_errorMsg = Some (msg_of e)\<rparr>"

text \<open>
  \<open>resp.get('orderID')\<close> and its truth value: an absent key (\<open>None\<close>) and the empty
  string are false, and \<open>resp['orderID']\<close> is read only where it is true.
\<close>

definition order_id_of :: "resp \<Rightarrow> string" where
  "order_id_of r = (case r_orderID r of None \<Rightarrow> [] | Some s \<Rightarrow> s)"

definition has_order_id :: "resp \<Rightarrow> bool" where
  "has_order_id r = (order_id_of r \<noteq> [])"

definition canceled_of :: "resp \<Rightarrow> string list" where
  "canceled_of r = (case r_canceled r of None \<Rightarrow> [] | Some xs \<Rightarrow> xs)"

text \<open>The \<open>try\<close> block of \<open>place_limit_order\<close>: what it raises or returns, and the bot after it.\<close>

definition place_limit_order_body ::
    "env \<Rightarrow> string \<Rightarrow> string \<Rightarrow> side \<Rightarrow> real \<Rightarrow> real \<Rightarrow> int \<Rightarrow> bot \<Rightarrow> (error + resp) \<times> bot" where
  "place_limit_order_body env market_id token_id sd sz pr fee_rate_bps b =
     (let price = max (1 / 100) (min (99 / 100) pr) in
      case e_min_size env (tick b) market_id of
        Inl e \<Rightarrow> (Inl e, bump b)
      | Inr min_size \<Rightarrow>
          (let sz' = max min_size sz;
               args = \<lparr>a_price = price, a_size = sz', a_side = sd, a_token_id = token_id,
                        a_fee_rate_bps = fee_rate_bps\<rparr>;
               b1 = bump b
           in case e_create_order env (tick b1) args of
                Inl e \<Rightarrow> (Inl e, bump b1)
              | Inr signed_order \<Rightarrow>
                  (let b2 = bump b1;
                       b3 = (bump b2)\<lparr>sent := sent b2 @ [args]\<rparr>
                   in case e_post_order env (tick b2) args of
                        Inl e \<Rightarrow> (Inl e, b3)
                      | Inr r \<Rightarrow>
                          if has_order_id r then
                            (Inr r,
                             (bump b3)\<lparr>orders := orders b3 @
                                [\<lparr>o_id = order_id_of r, o_market_id = market_id,
                                  o_token_id = token_id, o_side = sd, o_size = sz',
                                  o_price = price, o_time = e_now env (tick b3),
                                  o_status = ''live''\<rparr>]\<rparr>)
                          else (Inr r, b3))))"

definition place_limit_order ::
    "env \<Rightarrow> string \<Rightarrow> string \<Rightarrow> side \<Rightarrow> real \<Rightarrow> real \<Rightarrow> int \<Rightarrow> bot \<Rightarrow> resp \<times> bot" where
  "place_limit_order env market_id token_id sd sz pr fee_rate_bps b =
     (case place_limit_order_body env market_id token_id sd sz pr fee_rate_bps b of
        (Inl e, b') \<Rightarrow> (failure_result e, b')
      | (Inr r, b') \<Rightarrow> (r, b'))"

text \<open>The \<open>for\<close> loop of \<open>cancel_order\<close> rewrites entries in place: a map over the registry.\<close>

definition mark_canceled :: "string \<Rightarrow> resp \<Rightarrow> order_info \<Rightarrow> order_info" where
  "mark_canceled order_id r ord =
     (if o_id ord = order_id \<and> order_id \<in> set (canceled_of r)
      then ord\<lparr>o_status := ''canceled''\<rparr> else ord)"

definition cancel_order_body :: "env \<Rightarrow> string \<Rightarrow> bot \<Rightarrow> (error + resp) \<times> bot" where
  "cancel_order_body env order_id b =
     (case e_cancel env (tick b) order_id of
        Inl e \<Rightarrow> (Inl e, bump b)
      | Inr r \<Rightarrow> (Inr r, (bump b)\<lparr>orders := map (mark_canceled order_id r) (orders b)\<rparr>))"

definition cancel_order :: "env \<Rightarrow> string \<Rightarrow> bot \<Rightarrow> resp \<times> bot" where
  "cancel_order env order_id b =
     (case cancel_order_body env order_id b of
        (Inl e, b') \<Rightarrow> (failure_result e, b')
      | (Inr r, b') \<Rightarrow> (r, b'))"

section \<open>Double-precision arithmetic\<close>

text \<open>
  A Python float is an IEEE 754 binary64 number: zero, or \<open>m * 2 ^ k\<close> with an integer
  \<open>m\<close> of at most 53 bits and \<open>k \<ge> -1074\<close>. \<open>fl x\<close> is the double nearest to the
  real number \<open>x\<close>, a tie going to the even \<open>m\<close>: what \<open>float\<close> returns for a string
  that denotes \<open>x\<close>, and what \<open>+\<close>, \<open>-\<close>, \<open>*\<close> and \<open>/\<close> return for an exact
  result \<open>x\<close>. Results beyond the largest double (about \<open>1.8e308\<close>) are outside the
  model.
\<close>

definition round_half_even :: "real \<Rightarrow> int" where
  "round_half_even x =
     (let f = \<lfloor>x\<rfloor>; d = x - of_int f
      in if d < 1 / 2 then f else if 1 / 2 < d then f + 1 else if even f then f else f + 1)"

definition pow2 :: "int \<Rightarrow> real" where
  "pow2 k = (if 0 \<le> k then 2 ^ nat k else 1 / 2 ^ nat (- k))"

text \<open>
  The exponent of the last binary place of the doubles around \<open>x\<close>: 52 below the
  exponent of \<open>x\<close>, and \<open>-1074\<close> for the subnormal numbers.
\<close>

definition ulp_exp :: "real \<Rightarrow> int" where
  "ulp_exp x = max \<lfloor>log 2 \<bar>x\<bar>\<rfloor> (- 1022) - 52"

definition fl :: "real \<Rightarrow> real" where
  "fl x =
     (if x = 0 then 0
      else of_int (round_half_even (x / pow2 (ulp_exp x))) * pow2 (ulp_exp x))"

section \<open>\<open>run_strategy\<close>\<close>

text \<open>
  \<open>round(x, 2)\<close> on a double \<open>x\<close>: the double nearest to the multiple of \<open>0.01\<close>
  that is nearest to the exact value of \<open>x\<close>, a tie going to the even multiple.
\<close>

definition py_round2 :: "real \<Rightarrow> real" where
  "py_round2 x = fl (of_int (round_half_even (x * 100)) / 100)"

text \<open>
  The local variables of the loop: the bot, \<open>active_buy_order\<close> and \<open>active_sell_order\<close>.
  The two variables hold \<open>None\<close> or a reference to a registry entry, of which the loop
  reads the truth value (true for every entry) and the key \<open>'id'\<close>.
\<close>

type_synonym loop_state = "bot \<times> order_info option \<times> order_info option"

text \<open>\<open>self.cancel_order(active['id'])\<close> under \<open>if active:\<close>, the result dropped.\<close>

definition cancel_active :: "env \<Rightarrow> order_info option \<Rightarrow> bot \<Rightarrow> bot" where
  "cancel_active env active b =
     (case active of None \<Rightarrow> b | Some ord \<Rightarrow> snd (cancel_order env (o_id ord) b))"

text \<open>
  \<open>next((o for o in self.orders if o['id'] == resp['orderID']), None)\<close> under
  \<open>if resp.get('orderID'):\<close>; the variable was set to \<open>None\<close> by the cancel step, or was
  \<open>None\<close> before.
\<close>

definition track :: "resp \<Rightarrow> bot \<Rightarrow> order_info option" where
  "track r b =
     (if has_order_id r then find (\<lambda>ord. o_id ord = order_id_of r) (orders b) else None)"

text \<open>
  One pass through the body of the \<open>while\<close> loop, up to and including \<open>time.sleep(30)\<close>.
  \<open>get_mid_price\<close>, \<open>cancel_order\<close> and \<open>place_limit_order\<close> catch every exception
  themselves and the remaining statements are arithmetic on numbers and reads of dicts
  that hold the key read, so the handler of the loop (\<open>time.sleep(5)\<close>) is never
  entered and has no branch here.
\<close>

definition strategy_cycle ::
    "env \<Rightarrow> string \<Rightarrow> string \<Rightarrow> real \<Rightarrow> real \<Rightarrow> loop_state \<Rightarrow> loop_state" where
  "strategy_cycle env market_id token_id sz max_spread ls =
     (case ls of (b, active_buy, active_sell) \<Rightarrow>
      (case get_mid_price env market_id token_id b of (mid_price, b1) \<Rightarrow>
         if mid_price \<noteq> 0 then
           (let buy_price = max (1 / 100) (py_round2 (fl (mid_price - max_spread)));
                sell_price = min (99 / 100) (py_round2 (fl (mid_price + max_spread)));
                b2 = cancel_active env active_buy b1;
                b3 = cancel_active env active_sell b2
            in case place_limit_order env market_id token_id BUY sz buy_price 0 b3 of
                 (buy_resp, b4) \<Rightarrow>
                   (let active_buy' = track buy_resp b4
                    in case place_limit_order env market_id token_id SELL sz sell_price 0 b4 of
                         (sell_resp, b5) \<Rightarrow>
                           (bump b5, active_buy', track sell_resp b5)))
         else (bump b1, active_buy, active_sell)))"

text \<open>
  The \<open>while time.time() < end_time\<close> loop. The clock is the environment's, so the loop
  need not end; \<open>run_loop n\<close> runs at most \<open>n\<close> passes and is \<open>None\<close> when the clock
  has not reached \<open>end_time\<close> by then.
\<close>

fun run_loop ::
    "nat \<Rightarrow> env \<Rightarrow> string \<Rightarrow> string \<Rightarrow> real \<Rightarrow> real \<Rightarrow> real \<Rightarrow> loop_state \<Rightarrow> loop_state option" where
  "run_loop 0 env market_id token_id sz max_spread end_time ls = None"
| "run_loop (Suc n) env market_id token_id sz max_spread end_time ls =
     (case ls of (b, active_buy, active_sell) \<Rightarrow>
        if e_time env (tick b) < end_time
        then run_loop n env market_id token_id sz max_spread end_time
               (strategy_cycle env market_id token_id sz max_spread (bump b, active_buy, active_sell))
        else Some (bump b, active_buy, active_sell))"

text \<open>
  The states in which the loop test is evaluated during the first \<open>n\<close> passes: the
  instants between cycles.
\<close>

fun loop_heads ::
    "nat \<Rightarrow> env \<Rightarrow> string \<Rightarrow> string \<Rightarrow> real \<Rightarrow> real \<Rightarrow> real \<Rightarrow> loop_state \<Rightarrow> loop_state list" where
  "loop_heads 0 env market_id token_id sz max_spread end_time ls = [ls]"
| "loop_heads (Suc n) env market_id token_id sz max_spread end_time ls =
     (case ls of (b, active_buy, active_sell) \<Rightarrow>
        if e_time env (tick b) < end_time
        then ls # loop_heads n env market_id token_id sz max_spread end_time
               (strategy_cycle env market_id token_id sz max_spread (bump b, active_buy, active_sell))
        else [ls])"

text \<open>The statements of \<open>run_strategy\<close> before the loop: the state in which it is entered.\<close>

definition strategy_start :: "bot \<Rightarrow> loop_state" where
  "strategy_start b = (bump b, None, None)"

definition strategy_end_time :: "env \<Rightarrow> real \<Rightarrow> bot \<Rightarrow> real" where
  "strategy_end_time env duration_minutes b =
     fl (e_time env (tick b) + fl (duration_minutes * 60))"

definition run_strategy ::
    "nat \<Rightarrow> env \<Rightarrow> string \<Rightarrow> string \<Rightarrow> real \<Rightarrow> real \<Rightarrow> real \<Rightarrow> bot \<Rightarrow> bot option" where
  "run_strategy n env market_id token_id risk_amount max_spread duration_minutes b =
     (let end_time = strategy_end_time env duration_minutes b;
          sz = fl (risk_amount / 2)
      in case run_loop n env market_id token_id sz max_spread end_time (strategy_start b) of
           None \<Rightarrow> None
         | Some (b1, active_buy, active_sell) \<Rightarrow>
             Some (cancel_active env active_sell (cancel_active env active_buy b1)))"

section \<open>\<open>get_pnl\<close>\<close>

record pnl_acc =
  buy_volume :: real
  buy_cost :: real
  sell_volume :: real
  sell_revenue :: real

definition pnl_zero :: pnl_acc where
  "pnl_zero = \<lparr>buy_volume = 0, buy_cost = 0, sell_volume = 0, sell_revenue = 0\<rparr>"

text \<open>
  The \<open>for trade in trades\<close> loop; it stops at the first expression that raises.
  \<open>float(trade['size'])\<close> and \<open>float(trade['price'])\<close> are \<open>fl\<close> of the numbers
  denoted, and each product, difference and sum is rounded.
\<close>

fun pnl_loop :: "trade list \<Rightarrow> pnl_acc \<Rightarrow> error + pnl_acc" where
  "pnl_loop [] acc = Inr acc"
| "pnl_loop (t # ts) acc =
     (case t_status t of
        Inl e \<Rightarrow> Inl e
      | Inr st \<Rightarrow>
          if st = ''CONFIRMED'' then
            (case t_size t of
               Inl e \<Rightarrow> Inl e
             | Inr sz \<Rightarrow>
            (case t_price t of
               Inl e \<Rightarrow> Inl e
             | Inr pr \<Rightarrow>
            (case t_side t of
               Inl e \<Rightarrow> Inl e
             | Inr sd \<Rightarrow>
                 if sd = ''buy''
                 then pnl_loop ts
                        (acc\<lparr>buy_volume := fl (buy_volume acc + fl sz),
                             buy_cost := fl (buy_cost acc + fl (fl sz * fl pr))\<rparr>)
                 else pnl_loop ts
                        (acc\<lparr>sell_volume := fl (sell_volume acc + fl sz),
                             sell_revenue :=
                               fl (sell_revenue acc + fl (fl sz * fl (1 - fl pr)))\<rparr>))))
          else pnl_loop ts acc)"

definition get_rewards_total :: real where
  "get_rewards_total = 0"

text \<open>The snapshot \<open>get_pnl\<close> builds from the accumulators and the time stamp.\<close>

definition snapshot_of :: "string \<Rightarrow> pnl_acc \<Rightarrow> snapshot" where
  "snapshot_of ts acc =
     (let realized = fl (sell_revenue acc - buy_cost acc);
          reward_earnings = get_rewards_total
      in \<lparr>timestamp = ts, realized_pnl = realized, rewards = reward_earnings,
          total_pnl = fl (realized + reward_earnings)\<rparr>)"

definition get_pnl_body :: "env \<Rightarrow> bot \<Rightarrow> (error + snapshot list) \<times> bot" where
  "get_pnl_body env b =
     (case e_get_address env (tick b) of
        Inl e \<Rightarrow> (Inl e, bump b)
      | Inr address \<Rightarrow>
          (let b1 = bump b
           in case e_get_trades env (tick b1) address of
                Inl e \<Rightarrow> (Inl e, bump b1)
              | Inr trades \<Rightarrow>
                  (let b2 = bump b1
                   in case pnl_loop trades pnl_zero of
                        Inl e \<Rightarrow> (Inl e, b2)
                      | Inr acc \<Rightarrow>
                          (let b3 = (bump b2)\<lparr>pnl_history := pnl_history b2 @
                                       [snapshot_of (e_now env (tick b2)) acc]\<rparr>
                           in (Inr (pnl_history b3), b3)))))"

definition get_pnl :: "env \<Rightarrow> bot \<Rightarrow> snapshot list \<times> bot" where
  "get_pnl env b =
     (case get_pnl_body env b of
        (Inl e, b') \<Rightarrow> ([], b')
      | (Inr h, b') \<Rightarrow> (h, b'))"

section \<open>Terms of the specification\<close>

text \<open>
  The prices the specification speaks of: the prices on one side of a fetched book, the
  best bid (the maximum bid price, 0 without bids) and the best ask (the minimum ask
  price, 1 without asks).
\<close>

definition price_list :: "book_order \<Rightarrow> real list" where
  "price_list x = (case bo_price x of Inl e \<Rightarrow> [] | Inr p \<Rightarrow> [p])"

definition prices_on :: "string \<Rightarrow> book_order list \<Rightarrow> real list" where
  "prices_on s os = concat (map price_list (filter (\<lambda>x. bo_side x = Inr s) os))"

definition best_bid :: "book_order list \<Rightarrow> real" where
  "best_bid os = (let ps = prices_on ''buy'' os in if ps = [] then 0 else Max (set ps))"

definition best_ask :: "book_order list \<Rightarrow> real" where
  "best_ask os = (let ps = prices_on ''sell'' os in if ps = [] then 1 else Min (set ps))"

text \<open>
  A row the pricer can read: its side is there, and if it is a bid or an ask its price
  is a number.
\<close>

definition readable :: "book_order \<Rightarrow> bool" where
  "readable x =
     (case bo_side x of
        Inl e \<Rightarrow> False
      | Inr s \<Rightarrow> if s = ''buy'' \<or> s = ''sell'' then \<not> isl (bo_price x) else True)"

text \<open>
  The data model gives an order a price between 0 and 1; \<open>unit_prices\<close> says so of
  every price of a reply of \<open>client.get_orders\<close>.
\<close>

definition unit_price :: "book_order \<Rightarrow> bool" where
  "unit_price x = (case bo_price x of Inl e \<Rightarrow> True | Inr p \<Rightarrow> 0 \<le> p \<and> p \<le> 1)"

definition unit_prices :: "error + book_order list \<Rightarrow> bool" where
  "unit_prices reply = (case reply of Inl e \<Rightarrow> True | Inr os \<Rightarrow> list_all unit_price os)"

text \<open>
  Realized PnL in the words of the specification, in two readings: the sum over CONFIRMED
  sell trades of \<open>size * (1 - price)\<close> minus the sum over CONFIRMED buy trades of
  \<open>size * price\<close>, over the exact numbers (\<open>exact_realized_pnl\<close>) and in double
  arithmetic (\<open>spec_realized_pnl\<close>: sizes and prices converted by \<open>float\<close>, every
  product, difference and running sum rounded, the sums taken in the order of the list).
\<close>

definition confirmed :: "trade \<Rightarrow> bool" where
  "confirmed t = (t_status t = Inr ''CONFIRMED'')"

definition exact_realized_pnl :: "trade list \<Rightarrow> real" where
  "exact_realized_pnl ts =
     sum_list (map (\<lambda>t. case (t_size t, t_price t) of (Inr sz, Inr pr) \<Rightarrow> sz * (1 - pr) | _ \<Rightarrow> 0)
                 (filter (\<lambda>t. confirmed t \<and> t_side t = Inr ''sell'') ts)) -
     sum_list (map (\<lambda>t. case (t_size t, t_price t) of (Inr sz, Inr pr) \<Rightarrow> sz * pr | _ \<Rightarrow> 0)
                 (filter (\<lambda>t. confirmed t \<and> t_side t = Inr ''buy'') ts))"

definition buy_cost_of :: "trade \<Rightarrow> real" where
  "buy_cost_of t =
     (case (t_size t, t_price t) of (Inr sz, Inr pr) \<Rightarrow> fl (fl sz * fl pr) | _ \<Rightarrow> 0)"

definition sell_revenue_of :: "trade \<Rightarrow> real" where
  "sell_revenue_of t =
     (case (t_size t, t_price t) of (Inr sz, Inr pr) \<Rightarrow> fl (fl sz * fl (1 - fl pr)) | _ \<Rightarrow> 0)"

definition fl_sum :: "real list \<Rightarrow> real" where
  "fl_sum xs = foldl (\<lambda>acc x. fl (acc + x)) 0 xs"

definition spec_realized_pnl :: "trade list \<Rightarrow> real" where
  "spec_realized_pnl ts =
     fl (fl_sum (map sell_revenue_of (filter (\<lambda>t. confirmed t \<and> t_side t = Inr ''sell'') ts)) -
         fl_sum (map buy_cost_of (filter (\<lambda>t. confirmed t \<and> t_side t = Inr ''buy'') ts)))"

text \<open>
  A trade as the data model has it: its status can be read, and a CONFIRMED trade has a
  size and a price that are numbers and a side that is \<open>buy\<close> or \<open>sell\<close>.
\<close>

definition wf_trade :: "trade \<Rightarrow> bool" where
  "wf_trade t =
     (case t_status t of
        Inl e \<Rightarrow> False
      | Inr st \<Rightarrow>
          if st = ''CONFIRMED''
          then \<not> isl (t_size t) \<and> \<not> isl (t_price t) \<and>
               (t_side t = Inr ''buy'' \<or> t_side t = Inr ''sell'')
          else True)"

text \<open>
  The exchange confirms the cancellation that \<open>cancel_order order_id\<close> asks for in bot
  state \<open>b\<close>: the call returns and \<open>order_id\<close> is in the canceled-set of the response.
\<close>

definition cancel_confirmed :: "env \<Rightarrow> string \<Rightarrow> bot \<Rightarrow> bool" where
  "cancel_confirmed env order_id b =
     (case e_cancel env (tick b) order_id of
        Inl e \<Rightarrow> False
      | Inr r \<Rightarrow> order_id \<in> set (canceled_of r))"

text \<open>
  The quotes of one instrument that the registry holds as live on one side, the
  quote-pair invariant (at most one per side) and its strong form (none at all).
\<close>

definition on_instrument :: "string \<Rightarrow> string \<Rightarrow> order_info \<Rightarrow> bool" where
  "on_instrument m t ord = (o_market_id ord = m \<and> o_token_id ord = t)"

definition live_on :: "string \<Rightarrow> string \<Rightarrow> side \<Rightarrow> bot \<Rightarrow> order_info list" where
  "live_on m t sd b =
     filter (\<lambda>ord. on_instrument m t ord \<and> o_side ord = sd \<and> o_status ord = ''live'') (orders b)"


definition no_live_quotes :: "string \<Rightarrow> string \<Rightarrow> bot \<Rightarrow> bool" where
  "no_live_quotes m t b = (live_on m t BUY b = [] \<and> live_on m t SELL b = [])"


text \<open>
  The loop's bookkeeping is sound in a loop state when every live entry of the
  instrument has the id of \<open>active_buy_order\<close> or of \<open>active_sell_order\<close>.
\<close>

definition tracks :: "order_info option \<Rightarrow> order_info \<Rightarrow> bool" where
  "tracks active ord = (case active of None \<Rightarrow> False | Some a \<Rightarrow> o_id a = o_id ord)"


text \<open>
  How the registry may change. The two statuses the code writes; the step of one entry
  (kept as it is, or taken from \<open>live\<close> to \<open>canceled\<close> with nothing else changed); and the
  step of the registry: old entries stay in place and take entry steps, new entries
  come at the end with one of the two statuses.
\<close>

definition status_ok :: "order_info \<Rightarrow> bool" where
  "status_ok ord = (o_status ord = ''live'' \<or> o_status ord = ''canceled'')"

definition entry_step :: "order_info \<Rightarrow> order_info \<Rightarrow> bool" where
  "entry_step ord ord' =
     (ord' = ord \<or> (o_status ord = ''live'' \<and> ord' = ord\<lparr>o_status := ''canceled''\<rparr>))"

definition evolves :: "order_info list \<Rightarrow> order_info list \<Rightarrow> bool" where
  "evolves old new =
     (length old \<le> length new \<and>
      list_all2 entry_step old (take (length old) new) \<and>
      list_all status_ok (drop (length old) new))"

text \<open>
  The operations of the bot that touch its lists, and runs of them from the bot
  \<open>__init__\<close> builds. \<open>create_api_key\<close> and \<open>get_active_markets\<close> write neither the
  registry nor the PnL history and are left out. A run of \<open>run_strategy\<close> that is cut
  off by its bound yields no state.
\<close>

datatype op =
    Place string string side real real int
  | Cancel string
  | MidPrice string string
  | Run nat string string real real real
  | Pnl

fun exec :: "env \<Rightarrow> op \<Rightarrow> bot \<Rightarrow> bot option" where
  "exec env (Place m t sd sz pr fee) b = Some (snd (place_limit_order env m t sd sz pr fee b))"
| "exec env (Cancel oid) b = Some (snd (cancel_order env oid b))"
| "exec env (MidPrice m t) b = Some (snd (get_mid_price env m t b))"
| "exec env (Run n m t risk sp dur) b = run_strategy n env m t risk sp dur b"
| "exec env Pnl b = Some (snd (get_pnl env b))"

fun exec_all :: "env \<Rightarrow> op list \<Rightarrow> bot \<Rightarrow> bot option" where
  "exec_all env [] b = Some b"
| "exec_all env (x # xs) b =
     (case exec env x b of None \<Rightarrow> None | Some b' \<Rightarrow> exec_all env xs b')"

section \<open>Sample environments\<close>

text \<open>
  Rows and replies used to run the definitions on concrete inputs: two bids at 0.40 and
  0.45, a confirmed buy of 10 at 0.40 and a confirmed sell of 10 at 0.70.
\<close>

definition bid_row :: "real \<Rightarrow> book_order" where
  "bid_row p = \<lparr>bo_side = Inr ''buy'', bo_price = Inr p\<rparr>"

definition ask_row :: "real \<Rightarrow> book_order" where
  "ask_row p = \<lparr>bo_side = Inr ''sell'', bo_price = Inr p\<rparr>"

definition confirmed_trade :: "string \<Rightarrow> real \<Rightarrow> real \<Rightarrow> trade" where
  "confirmed_trade sd sz pr =
     \<lparr>t_status = Inr ''CONFIRMED'', t_size = Inr sz, t_price = Inr pr, t_side = Inr sd\<rparr>"

definition accepted :: "string \<Rightarrow> resp" where
  "accepted oid =
     \<lparr>r_orderID = Some oid, r_canceled = None, r_success = Some True, r_errorMsg = None\<rparr>"

definition cancel_reply :: "string list \<Rightarrow> resp" where
  "cancel_reply ids =
     \<lparr>r_orderID = None, r_canceled = Some ids, r_success = None, r_errorMsg = None\<rparr>"

text \<open>
  \<open>env_ok\<close>: an exchange that answers every call, accepts every order under an id that
  tells the side and the cycle, and confirms every cancellation; the clock advances 30
  seconds per call. \<open>env_deaf\<close> differs in one point: its cancel replies confirm nothing.
  \<open>env_down\<close>: every call raises; its \<open>e_min_size\<close> is the \<open>AttributeError\<close> of the
  call to the method the class does not define.
\<close>

definition sample_id :: "nat \<Rightarrow> order_args \<Rightarrow> string" where
  "sample_id n a =
     (if a_side a = BUY then (if n < 12 then ''b1'' else ''b2'')
      else (if n < 12 then ''s1'' else ''s2''))"

definition env_ok :: env where
  "env_ok =
     \<lparr>e_get_orders = (\<lambda>n m t. Inr [bid_row (2 / 5), bid_row (9 / 20)]),
      e_min_size = (\<lambda>n m. Inr 5),
      e_create_order = (\<lambda>n a. Inr ()),
      e_post_order = (\<lambda>n a. Inr (accepted (sample_id n a))),
      e_cancel = (\<lambda>n oid. Inr (cancel_reply [oid])),
      e_get_address = (\<lambda>n. Inr ''0xabc''),
      e_get_trades = (\<lambda>n a. Inr [confirmed_trade ''buy'' 10 (2 / 5),
                                   confirmed_trade ''sell'' 10 (7 / 10)]),
      e_time = (\<lambda>n. 30 * real n),
      e_now = (\<lambda>n. ''2025-01-01T00:00:00'')\<rparr>"

definition env_deaf :: env where
  "env_deaf = env_ok\<lparr>e_cancel := (\<lambda>n oid. Inr (cancel_reply []))\<rparr>"

definition env_down :: env where
  "env_down =
     \<lparr>e_get_orders = (\<lambda>n m t. Inl (Exc ''connection refused'')),
      e_min_size = (\<lambda>n m. Inl (Exc ''no attribute get_market_min_size'')),
      e_create_order = (\<lambda>n a. Inl (Exc ''connection refused'')),
      e_post_order = (\<lambda>n a. Inl (Exc ''connection refused'')),
      e_cancel = (\<lambda>n oid. Inl (Exc ''connection refused'')),
      e_get_address = (\<lambda>n. Inl (Exc ''connection refused'')),
      e_get_trades = (\<lambda>n a. Inl (Exc ''connection refused'')),
      e_time = (\<lambda>n. 30 * real n),
      e_now = (\<lambda>n. ''2025-01-01T00:00:00'')\<rparr>"

text \<open>A registry with two live quotes, as two accepted placements leave it.\<close>

definition live_order :: "string \<Rightarrow> side \<Rightarrow> order_info" where
  "live_order oid sd =
     \<lparr>o_id = oid, o_market_id = ''m'', o_token_id = ''t'', o_side = sd, o_size = 5,
      o_price = 1 / 2, o_time = ''2025-01-01T00:00:00'', o_status = ''live''\<rparr>"

definition two_quotes :: bot where
  "two_quotes = init_bot\<lparr>orders := [live_order ''b1'' BUY, live_order ''s1'' SELL]\<rparr>"

chapter \<open>Properties\<close>

section \<open>The mid-price\<close>

lemma filter_side_ok:
  "list_all (\<lambda>x. \<not> isl (bo_side x)) xs \<Longrightarrow>
   filter_side s xs = Inr (filter (\<lambda>x. bo_side x = Inr s) xs)"
  by (induction xs) (auto split: sum.splits)

lemma filter_side_err:
  "\<not> list_all (\<lambda>x. \<not> isl (bo_side x)) xs \<Longrightarrow> isl (filter_side s xs)"
  by (induction xs) (auto split: sum.splits)

lemma scan_best_err:
  "\<not> list_all (\<lambda>x. \<not> isl (bo_price x)) xs \<Longrightarrow> isl (scan_best better b k xs)"
  by (induction xs arbitrary: b k) (auto split: sum.splits)

lemma Max_insert_dominated:
  fixes k :: real
  assumes "finite S" "k \<le> k'"
  shows "Max (insert k (insert k' S)) = Max (insert k' S)"
proof -
  have "k' \<le> Max (insert k' S)" using assms(1) by (intro Max_ge) auto
  then have "k \<le> Max (insert k' S)" using assms(2) by linarith
  moreover have "Max (insert k (insert k' S)) = max k (Max (insert k' S))"
    using assms(1) by (intro Max_insert) simp_all
  ultimately show ?thesis by (simp only: max_absorb2)
qed

lemma scan_best_max:
  "bo_price b = Inr k \<Longrightarrow> list_all (\<lambda>x. \<not> isl (bo_price x)) xs \<Longrightarrow>
   \<exists>b'. scan_best (\<lambda>k' k. k' > k) b k xs = Inr b' \<and>
        bo_price b' = Inr (Max (set (k # concat (map price_list xs))))"
proof (induction xs arbitrary: b k)
  case Nil
  then show ?case by simp
next
  case (Cons x xs)
  then obtain k' where k': "bo_price x = Inr k'" by (cases "bo_price x") auto
  let ?S = "set (concat (map price_list xs))"
  have fin: "finite ?S" by simp
  have all: "list_all (\<lambda>x. \<not> isl (bo_price x)) xs" using Cons.prems by simp
  show ?case
  proof (cases "k' > k")
    case True
    from Cons.IH[OF k' all] obtain b' where
      b': "scan_best (\<lambda>k' k. k' > k) x k' xs = Inr b'"
      "bo_price b' = Inr (Max (insert k' ?S))" by auto
    have "Max (insert k (insert k' ?S)) = Max (insert k' ?S)"
      using True fin by (intro Max_insert_dominated) auto
    then show ?thesis using True k' b' by (simp add: price_list_def)
  next
    case False
    from Cons.IH[OF Cons.prems(1) all] obtain b' where
      b': "scan_best (\<lambda>k' k. k' > k) b k xs = Inr b'"
      "bo_price b' = Inr (Max (insert k ?S))" by auto
    have "Max (insert k' (insert k ?S)) = Max (insert k ?S)"
      using False fin by (intro Max_insert_dominated) auto
    then show ?thesis using False k' b' by (simp add: price_list_def insert_commute)
  qed
qed


lemma Min_insert_dominated:
  fixes k :: real
  assumes "finite S" "k' \<le> k"
  shows "Min (insert k (insert k' S)) = Min (insert k' S)"
proof -
  have "Min (insert k' S) \<le> k'" using assms(1) by (intro Min_le) auto
  then have "Min (insert k' S) \<le> k" using assms(2) by linarith
  moreover have "Min (insert k (insert k' S)) = min k (Min (insert k' S))"
    using assms(1) by (intro Min_insert) simp_all
  ultimately show ?thesis by (simp only: min_absorb2)
qed

lemma scan_best_min:
  "bo_price b = Inr k \<Longrightarrow> list_all (\<lambda>x. \<not> isl (bo_price x)) xs \<Longrightarrow>
   \<exists>b'. scan_best (\<lambda>k' k. k' < k) b k xs = Inr b' \<and>
        bo_price b' = Inr (Min (set (k # concat (map price_list xs))))"
proof (induction xs arbitrary: b k)
  case Nil
  then show ?case by simp
next
  case (Cons x xs)
  then obtain k' where k': "bo_price x = Inr k'" by (cases "bo_price x") auto
  let ?S = "set (concat (map price_list xs))"
  have fin: "finite ?S" by simp
  have all: "list_all (\<lambda>x. \<not> isl (bo_price x)) xs" using Cons.prems by simp
  show ?case
  proof (cases "k' < k")
    case True
    from Cons.IH[OF k' all] obtain b' where
      b': "scan_best (\<lambda>k' k. k' < k) x k' xs = Inr b'"
      "bo_price b' = Inr (Min (insert k' ?S))" by auto
    have "Min (insert k (insert k' ?S)) = Min (insert k' ?S)"
      using True fin by (intro Min_insert_dominated) auto
    then show ?thesis using True k' b' by (simp add: price_list_def)
  next
    case False
    from Cons.IH[OF Cons.prems(1) all] obtain b' where
      b': "scan_best (\<lambda>k' k. k' < k) b k xs = Inr b'"
      "bo_price b' = Inr (Min (insert k ?S))" by auto
    have "Min (insert k' (insert k ?S)) = Min (insert k ?S)"
      using False fin by (intro Min_insert_dominated) auto
    then show ?thesis using False k' b' by (simp add: price_list_def insert_commute)
  qed
qed

lemma py_max_ok:
  assumes "bids \<noteq> []" "list_all (\<lambda>x. \<not> isl (bo_price x)) bids"
  shows "\<exists>b'. py_max_by_price bids = Inr b' \<and>
           bo_price b' = Inr (Max (set (concat (map price_list bids))))"
proof (cases bids)
  case Nil
  with assms show ?thesis by simp
next
  case (Cons x xs)
  with assms obtain k where k: "bo_price x = Inr k" by (cases "bo_price x") auto
  from scan_best_max[OF k, of xs] assms Cons k show ?thesis
    by (auto simp: py_max_by_price_def price_list_def)
qed

lemma py_min_ok:
  assumes "asks \<noteq> []" "list_all (\<lambda>x. \<not> isl (bo_price x)) asks"
  shows "\<exists>b'. py_min_by_price asks = Inr b' \<and>
           bo_price b' = Inr (Min (set (concat (map price_list asks))))"
proof (cases asks)
  case Nil
  with assms show ?thesis by simp
next
  case (Cons x xs)
  with assms obtain k where k: "bo_price x = Inr k" by (cases "bo_price x") auto
  from scan_best_min[OF k, of xs] assms Cons k show ?thesis
    by (auto simp: py_min_by_price_def price_list_def)
qed

lemma py_best_err:
  "\<not> list_all (\<lambda>x. \<not> isl (bo_price x)) xs \<Longrightarrow> isl (py_best better xs)"
  by (cases xs) (auto split: sum.splits intro: scan_best_err)

lemma priced_nonempty:
  "xs \<noteq> [] \<Longrightarrow> list_all (\<lambda>x. \<not> isl (bo_price x)) xs \<Longrightarrow> concat (map price_list xs) \<noteq> []"
  by (cases xs) (auto simp: price_list_def split: sum.splits)

lemma readable_split:
  "list_all (\<lambda>x. \<not> isl (bo_side x)) os \<Longrightarrow>
   list_all readable os \<longleftrightarrow>
     list_all (\<lambda>x. \<not> isl (bo_price x)) (filter (\<lambda>x. bo_side x = Inr ''buy'') os) \<and>
     list_all (\<lambda>x. \<not> isl (bo_price x)) (filter (\<lambda>x. bo_side x = Inr ''sell'') os)"
  by (induction os) (auto simp: readable_def split: sum.splits)

lemma readable_sides: "list_all readable os \<Longrightarrow> list_all (\<lambda>x. \<not> isl (bo_side x)) os"
  by (induction os) (auto simp: readable_def split: sum.splits)

lemma mid_price_of_char:
  "mid_price_of (Inr os) =
     (if list_all readable os then (best_bid os + best_ask os) / 2 else 1 / 2)"
proof (cases "list_all (\<lambda>x. \<not> isl (bo_side x)) os")
  case False
  then have "isl (filter_side ''buy'' os)" by (rule filter_side_err)
  moreover have "\<not> list_all readable os" using False readable_sides by blast
  ultimately show ?thesis
    by (auto simp: mid_price_of_def get_mid_price_body_def split: sum.splits)
next
  case True
  let ?bids = "filter (\<lambda>x. bo_side x = Inr ''buy'') os"
  let ?asks = "filter (\<lambda>x. bo_side x = Inr ''sell'') os"
  let ?P = "list_all (\<lambda>x. \<not> isl (bo_price x))"
  have fb: "filter_side ''buy'' os = Inr ?bids" and fa: "filter_side ''sell'' os = Inr ?asks"
    using True by (simp_all add: filter_side_ok)
  have rd: "list_all readable os \<longleftrightarrow> ?P ?bids \<and> ?P ?asks"
    using True by (rule readable_split)
  show ?thesis
  proof (cases "?P ?bids \<and> ?P ?asks")
    case ok: True
    have bb: "(if ?bids = [] then Inr 0
               else (case py_max_by_price ?bids of Inl e \<Rightarrow> Inl e | Inr b \<Rightarrow> bo_price b))
              = (Inr (best_bid os) :: error + real)"
    proof (cases "?bids = []")
      case True
      then show ?thesis by (simp add: best_bid_def prices_on_def)
    next
      case False
      from py_max_ok[OF False] ok obtain b' where
        "py_max_by_price ?bids = Inr b'"
        "bo_price b' = Inr (Max (set (concat (map price_list ?bids))))" by blast
      moreover have "concat (map price_list ?bids) \<noteq> []"
        using False ok by (intro priced_nonempty) auto
      ultimately show ?thesis using False
        unfolding best_bid_def prices_on_def Let_def by (simp only: if_False sum.case)
    qed
    have ba: "(if ?asks = [] then Inr 1
               else (case py_min_by_price ?asks of Inl e \<Rightarrow> Inl e | Inr b \<Rightarrow> bo_price b))
              = (Inr (best_ask os) :: error + real)"
    proof (cases "?asks = []")
      case True
      then show ?thesis by (simp add: best_ask_def prices_on_def)
    next
      case False
      from py_min_ok[OF False] ok obtain b' where
        "py_min_by_price ?asks = Inr b'"
        "bo_price b' = Inr (Min (set (concat (map price_list ?asks))))" by blast
      moreover have "concat (map price_list ?asks) \<noteq> []"
        using False ok by (intro priced_nonempty) auto
      ultimately show ?thesis using False
        unfolding best_ask_def prices_on_def Let_def by (simp only: if_False sum.case)
    qed
    have none: "?bids = [] \<Longrightarrow> ?asks = [] \<Longrightarrow> (best_bid os + best_ask os) / 2 = 1 / 2"
      by (simp add: best_bid_def best_ask_def prices_on_def)
    show ?thesis
      using ok rd none unfolding mid_price_of_def get_mid_price_body_def
      by (simp only: sum.case fb fa bb ba if_True split: if_splits) auto
  next
    case bad: False
    then have ne: "\<not> (?bids = [] \<and> ?asks = [])" by auto
    show ?thesis
    proof (cases "?P ?bids")
      case False
      then have "isl (py_max_by_price ?bids)" unfolding py_max_by_price_def by (rule py_best_err)
      moreover have "?bids \<noteq> []" using False by auto
      ultimately show ?thesis using bad rd
        unfolding mid_price_of_def get_mid_price_body_def
        by (auto simp: fb fa split: sum.splits)
    next
      case True
      then have "\<not> ?P ?asks" using bad by simp
      then have "isl (py_min_by_price ?asks)" "?asks \<noteq> []"
        unfolding py_min_by_price_def by (auto intro: py_best_err)
      then show ?thesis using bad rd
        unfolding mid_price_of_def get_mid_price_body_def
        by (auto simp: fb fa split: sum.splits)
    qed
  qed
qed

lemma prices_on_unit:
  "list_all unit_price os \<Longrightarrow> p \<in> set (prices_on s os) \<Longrightarrow> 0 \<le> p \<and> p \<le> 1"
  by (induction os) (auto simp: prices_on_def price_list_def unit_price_def split: sum.splits if_splits)

lemma best_bid_unit: "list_all unit_price os \<Longrightarrow> 0 \<le> best_bid os \<and> best_bid os \<le> 1"
proof -
  assume u: "list_all unit_price os"
  show ?thesis
  proof (cases "prices_on ''buy'' os = []")
    case True
    then show ?thesis by (simp add: best_bid_def)
  next
    case False
    then have "Max (set (prices_on ''buy'' os)) \<in> set (prices_on ''buy'' os)"
      by (intro Max_in) auto
    from prices_on_unit[OF u this] False show ?thesis by (simp add: best_bid_def)
  qed
qed

lemma best_ask_unit: "list_all unit_price os \<Longrightarrow> 0 \<le> best_ask os \<and> best_ask os \<le> 1"
proof -
  assume u: "list_all unit_price os"
  show ?thesis
  proof (cases "prices_on ''sell'' os = []")
    case True
    then show ?thesis by (simp add: best_ask_def)
  next
    case False
    then have "Min (set (prices_on ''sell'' os)) \<in> set (prices_on ''sell'' os)"
      by (intro Min_in) auto
    from prices_on_unit[OF u this] False show ?thesis by (simp add: best_ask_def)
  qed
qed

lemma readable_mset: "mset os = mset os' \<Longrightarrow> list_all readable os = list_all readable os'"
  by (metis list_all_iff mset_eq_setD)

lemma prices_on_set:
  "set (prices_on s os) = (\<Union>x\<in>{x \<in> set os. bo_side x = Inr s}. set (price_list x))"
  by (simp add: prices_on_def)

lemma best_mset:
  assumes "mset os = mset os'"
  shows "best_bid os = best_bid os'" and "best_ask os = best_ask os'"
proof -
  have s: "set os = set os'" using assms by (rule mset_eq_setD)
  have e: "\<And>s. set (prices_on s os) = set (prices_on s os')"
    by (simp only: prices_on_set s)
  have n: "\<And>s. prices_on s os = [] \<longleftrightarrow> prices_on s os' = []"
    using e by (metis set_empty)
  show "best_bid os = best_bid os'" using e n by (simp add: best_bid_def)
  show "best_ask os = best_ask os'" using e n by (simp add: best_ask_def)
qed

text \<open>
  C3. For every fetched order book whose rows the pricer can read, \<open>get_mid_price\<close>
  returns \<open>(best_bid + best_ask) / 2\<close>, with \<open>best_bid\<close> the maximum bid price (0
  without bids) and \<open>best_ask\<close> the minimum ask price (1 without asks); with neither a bid
  nor an ask in the book it returns exactly \<open>1/2\<close>; and the result is the same for every
  reordering of the book.
\<close>

theorem get_mid_price_formula:
  "(e_get_orders env (tick b) market_id token_id = Inr os \<and> list_all readable os \<longrightarrow>
      fst (get_mid_price env market_id token_id b) = (best_bid os + best_ask os) / 2) \<and>
   (e_get_orders env (tick b) market_id token_id = Inr os \<and>
    filter (\<lambda>x. bo_side x = Inr ''buy'') os = [] \<and> filter (\<lambda>x. bo_side x = Inr ''sell'') os = [] \<longrightarrow>
      fst (get_mid_price env market_id token_id b) = 1 / 2) \<and>
   (mset os = mset os' \<longrightarrow> mid_price_of (Inr os) = mid_price_of (Inr os'))"
proof (intro conjI impI)
  assume "e_get_orders env (tick b) market_id token_id = Inr os \<and> list_all readable os"
  then show "fst (get_mid_price env market_id token_id b) = (best_bid os + best_ask os) / 2"
    by (simp add: get_mid_price_def mid_price_of_char)
next
  assume a: "e_get_orders env (tick b) market_id token_id = Inr os \<and>
    filter (\<lambda>x. bo_side x = Inr ''buy'') os = [] \<and> filter (\<lambda>x. bo_side x = Inr ''sell'') os = []"
  then have "best_bid os = 0" "best_ask os = 1"
    by (simp_all add: best_bid_def best_ask_def prices_on_def)
  with a show "fst (get_mid_price env market_id token_id b) = 1 / 2"
    by (simp add: get_mid_price_def mid_price_of_char)
next
  assume m: "mset os = mset os'"
  show "mid_price_of (Inr os) = mid_price_of (Inr os')"
    using readable_mset[OF m] best_mset[OF m] by (simp add: mid_price_of_char)
qed

theorem get_mid_price_formula_witness:
  "fst (get_mid_price env_ok ''m'' ''t'' init_bot) = 29 / 40 \<and>
   fst (get_mid_price (env_ok\<lparr>e_get_orders := (\<lambda>n m t. Inr [])\<rparr>) ''m'' ''t'' init_bot) = 1 / 2 \<and>
   mid_price_of (Inr [bid_row (2 / 5), bid_row (9 / 20)]) =
     mid_price_of (Inr [bid_row (9 / 20), bid_row (2 / 5)])"
proof -
  have r: "list_all readable [bid_row (2 / 5), bid_row (9 / 20)]"
    by (simp add: readable_def bid_row_def)
  have o: "e_get_orders env_ok (tick init_bot) ''m'' ''t'' = Inr [bid_row (2 / 5), bid_row (9 / 20)]"
    by (simp add: env_ok_def)
  have v: "(best_bid [bid_row (2 / 5), bid_row (9 / 20)] + best_ask [bid_row (2 / 5), bid_row (9 / 20)]) / 2
           = 29 / 40"
    by (simp add: best_bid_def best_ask_def prices_on_def price_list_def bid_row_def)
  have e: "e_get_orders (env_ok\<lparr>e_get_orders := (\<lambda>n m t. Inr [])\<rparr>) (tick init_bot) ''m'' ''t'' = Inr []"
    by simp
  from get_mid_price_formula[of env_ok init_bot "''m''" "''t''" "[bid_row (2 / 5), bid_row (9 / 20)]"
        "[bid_row (9 / 20), bid_row (2 / 5)]"] r o v
  have 1: "fst (get_mid_price env_ok ''m'' ''t'' init_bot) = 29 / 40"
    and 3: "mid_price_of (Inr [bid_row (2 / 5), bid_row (9 / 20)]) =
     mid_price_of (Inr [bid_row (9 / 20), bid_row (2 / 5)])" by simp_all
  from get_mid_price_formula[of "env_ok\<lparr>e_get_orders := (\<lambda>n m t. Inr [])\<rparr>" init_bot "''m''" "''t''" "[]" "[]"] e
  have 2: "fst (get_mid_price (env_ok\<lparr>e_get_orders := (\<lambda>n m t. Inr [])\<rparr>) ''m'' ''t'' init_bot) = 1 / 2"
    by simp
  from 1 2 3 show ?thesis by simp
qed

text \<open>
  C9, as the code has it. Whenever the prices of the fetched book lie in \<open>[0, 1]\<close>, and
  also when the fetch fails, \<open>get_mid_price\<close> returns a price in \<open>[0, 1]\<close>.
\<close>

theorem get_mid_price_range:
  assumes "unit_prices (e_get_orders env (tick b) market_id token_id)"
  shows "0 \<le> fst (get_mid_price env market_id token_id b) \<and>
         fst (get_mid_price env market_id token_id b) \<le> 1"
proof (cases "e_get_orders env (tick b) market_id token_id")
  case (Inl e)
  then show ?thesis by (simp add: get_mid_price_def mid_price_of_def get_mid_price_body_def)
next
  case (Inr os)
  with assms have u: "list_all unit_price os" by (simp add: unit_prices_def)
  from best_bid_unit[OF u] best_ask_unit[OF u] Inr show ?thesis
    by (simp add: get_mid_price_def mid_price_of_char)
qed

theorem get_mid_price_range_witness:
  "unit_prices (e_get_orders env_ok (tick init_bot) ''m'' ''t'') \<and>
   0 \<le> fst (get_mid_price env_ok ''m'' ''t'' init_bot) \<and>
   fst (get_mid_price env_ok ''m'' ''t'' init_bot) \<le> 1"
proof -
  have u: "unit_prices (e_get_orders env_ok (tick init_bot) ''m'' ''t'')"
    by (simp add: unit_prices_def unit_price_def env_ok_def bid_row_def)
  from get_mid_price_range[OF u] u show ?thesis by simp
qed

text \<open>
  As the specification states it, the property fails: \<open>get_mid_price\<close> does not clamp, and for a book with
  a bid at 3 and an ask at 5 it returns 4.
\<close>

theorem get_mid_price_range_counterexample:
  "fst (get_mid_price (env_ok\<lparr>e_get_orders := (\<lambda>n m t. Inr [bid_row 3, ask_row 5])\<rparr>)
          ''m'' ''t'' init_bot) = 4 \<and>
   \<not> fst (get_mid_price (env_ok\<lparr>e_get_orders := (\<lambda>n m t. Inr [bid_row 3, ask_row 5])\<rparr>)
          ''m'' ''t'' init_bot) \<le> 1"
  by (simp add: get_mid_price_def mid_price_of_def get_mid_price_body_def bid_row_def ask_row_def
      py_max_by_price_def py_min_by_price_def)

section \<open>Rounding to the nearest double\<close>

lemma pow2_powr: "pow2 k = 2 powr of_int k"
  by (simp add: pow2_def powr_int)

lemma ulp_exp_eq:
  assumes "pow2 e \<le> \<bar>x\<bar>" "\<bar>x\<bar> < pow2 (e + 1)" "- 1022 \<le> e"
  shows "ulp_exp x = e - 52"
proof -
  have "0 < \<bar>x\<bar>" using assms(1) unfolding pow2_powr by (smt (verit) powr_gt_zero)
  then have "\<lfloor>log 2 \<bar>x\<bar>\<rfloor> = e"
    using assms(1,2) unfolding pow2_powr by (subst floor_log_eq_powr_iff) auto
  with assms(3) show ?thesis by (simp add: ulp_exp_def)
qed

text \<open>\<open>fl\<close> on a number whose binary exponent \<open>e\<close> is known.\<close>

lemma fl_eval:
  assumes "pow2 e \<le> \<bar>x\<bar>" "\<bar>x\<bar> < pow2 (e + 1)" "- 1022 \<le> e"
  shows "fl x = of_int (round_half_even (x / pow2 (e - 52))) * pow2 (e - 52)"
proof -
  have "x \<noteq> 0" using assms(1) unfolding pow2_powr by (smt (verit) powr_gt_zero)
  with ulp_exp_eq[OF assms] show ?thesis by (simp add: fl_def)
qed

lemma fl_zero: "fl 0 = 0"
  by (simp add: fl_def)

text \<open>
  The doubles of the example of the specification: \<open>float('0.40')\<close>, \<open>float('0.70')\<close>,
  \<open>1 - 0.70\<close>, \<open>10 * (1 - 0.70)\<close>, \<open>10 * 0.40\<close> and the difference of the two sums.
\<close>

lemma fl_example:
  "fl 10 = 10"
  "fl 4 = 4"
  "fl (2 / 5) = 3602879701896397 / 9007199254740992"
  "fl (7 / 10) = 3152519739159347 / 4503599627370496"
  "fl (1 - 3152519739159347 / 4503599627370496) = 1351079888211149 / 4503599627370496"
  "fl (10 * (1351079888211149 / 4503599627370496)) = 6755399441055745 / 2251799813685248"
  "fl (6755399441055745 / 2251799813685248) = 6755399441055745 / 2251799813685248"
  "fl (10 * (3602879701896397 / 9007199254740992)) = 4"
  "fl (6755399441055745 / 2251799813685248 - 4) = - (2251799813685247 / 2251799813685248)"
  "fl (- (2251799813685247 / 2251799813685248)) = - (2251799813685247 / 2251799813685248)"
  using fl_eval[of 3 10] fl_eval[of 2 4] fl_eval[of "- 2" "2 / 5"] fl_eval[of "- 1" "7 / 10"]
    fl_eval[of "- 2" "1 - 3152519739159347 / 4503599627370496"]
    fl_eval[of 1 "10 * (1351079888211149 / 4503599627370496)"]
    fl_eval[of 1 "6755399441055745 / 2251799813685248"]
    fl_eval[of 2 "10 * (3602879701896397 / 9007199254740992)"]
    fl_eval[of "- 1" "6755399441055745 / 2251799813685248 - 4"]
    fl_eval[of "- 1" "- (2251799813685247 / 2251799813685248)"]
  by (simp_all add: round_half_even_def Let_def pow2_def)

section \<open>Realized PnL and the PnL history\<close>

lemma pnl_loop_wf:
  "list_all wf_trade ts \<Longrightarrow>
   \<exists>acc'. pnl_loop ts acc = Inr acc' \<and>
     sell_revenue acc' =
       foldl (\<lambda>a x. fl (a + x)) (sell_revenue acc)
         (map sell_revenue_of (filter (\<lambda>t. confirmed t \<and> t_side t = Inr ''sell'') ts)) \<and>
     buy_cost acc' =
       foldl (\<lambda>a x. fl (a + x)) (buy_cost acc)
         (map buy_cost_of (filter (\<lambda>t. confirmed t \<and> t_side t = Inr ''buy'') ts))"
proof (induction ts arbitrary: acc)
  case Nil
  then show ?case by simp
next
  case (Cons t ts)
  from Cons.prems have wt: "wf_trade t" and wts: "list_all wf_trade ts" by simp_all
  from wt obtain st where st: "t_status t = Inr st" by (auto simp: wf_trade_def split: sum.splits)
  show ?case
  proof (cases "st = ''CONFIRMED''")
    case False
    with st have nc: "\<not> confirmed t" by (simp add: confirmed_def)
    from Cons.IH[OF wts, of acc] st False nc show ?thesis by simp
  next
    case True
    with st wt obtain sz pr where f: "t_size t = Inr sz" "t_price t = Inr pr"
      and sd: "t_side t = Inr ''buy'' \<or> t_side t = Inr ''sell''"
      by (cases "t_size t"; cases "t_price t") (auto simp: wf_trade_def)
    from True st have c: "confirmed t" by (simp add: confirmed_def)
    from sd show ?thesis
    proof
      assume b: "t_side t = Inr ''buy''"
      let ?acc = "acc\<lparr>buy_volume := fl (buy_volume acc + fl sz),
                       buy_cost := fl (buy_cost acc + fl (fl sz * fl pr))\<rparr>"
      from Cons.IH[OF wts, of ?acc] st True f b c show ?thesis
        by (auto simp: buy_cost_of_def)
    next
      assume s: "t_side t = Inr ''sell''"
      let ?acc = "acc\<lparr>sell_volume := fl (sell_volume acc + fl sz),
                       sell_revenue := fl (sell_revenue acc + fl (fl sz * fl (1 - fl pr)))\<rparr>"
      from Cons.IH[OF wts, of ?acc] st True f s c show ?thesis
        by (auto simp: sell_revenue_of_def)
    qed
  qed
qed

lemma spec_realized_pnl_confirmed:
  "spec_realized_pnl (filter confirmed ts) = spec_realized_pnl ts"
  by (simp add: spec_realized_pnl_def conj_commute cong: conj_cong)

lemma spec_realized_pnl_example:
  "spec_realized_pnl [confirmed_trade ''buy'' 10 (2 / 5), confirmed_trade ''sell'' 10 (7 / 10)] =
     - (2251799813685247 / 2251799813685248)"
  apply (simp add: spec_realized_pnl_def fl_sum_def confirmed_trade_def confirmed_def
      sell_revenue_of_def buy_cost_of_def)
  apply (simp only: fl_example)
  done

lemma exact_realized_pnl_example:
  "exact_realized_pnl [confirmed_trade ''buy'' 10 (2 / 5), confirmed_trade ''sell'' 10 (7 / 10)] = - 1"
  by (simp add: exact_realized_pnl_def confirmed_trade_def confirmed_def)

lemma get_pnl_cases:
  "(\<exists>acc a ts. get_pnl_body env b =
        (Inr (pnl_history b @ [snapshot_of (e_now env (Suc (Suc (tick b)))) acc]),
         b\<lparr>tick := Suc (Suc (Suc (tick b))),
           pnl_history := pnl_history b @ [snapshot_of (e_now env (Suc (Suc (tick b)))) acc]\<rparr>) \<and>
        e_get_address env (tick b) = Inr a \<and> e_get_trades env (Suc (tick b)) a = Inr ts \<and>
        pnl_loop ts pnl_zero = Inr acc) \<or>
   (\<exists>e b'. get_pnl_body env b = (Inl e, b') \<and> pnl_history b' = pnl_history b \<and>
        orders b' = orders b)"
  by (auto simp: get_pnl_body_def bump_def Let_def split: sum.splits)

text \<open>
  C4, as the code has it. Given trades as the data model has them, \<open>get_pnl\<close> appends a
  snapshot whose \<open>realized_pnl\<close> is the sum over CONFIRMED sell trades of
  \<open>size * (1 - price)\<close> minus the sum over CONFIRMED buy trades of \<open>size * price\<close>,
  computed in double arithmetic in the order of the trades; trades that are not
  CONFIRMED do not count; and for one CONFIRMED buy of 10 at 0.40 and one CONFIRMED sell
  of 10 at 0.70 the value is \<open>-(1 - 2^-51)\<close>, which Python prints as
  \<open>-0.9999999999999996\<close>.
\<close>

theorem get_pnl_realized:
  assumes "e_get_address env (tick b) = Inr a"
    and "e_get_trades env (Suc (tick b)) a = Inr ts"
    and "list_all wf_trade ts"
  shows "\<exists>s. pnl_history (snd (get_pnl env b)) = pnl_history b @ [s] \<and>
           fst (get_pnl env b) = pnl_history b @ [s] \<and>
           realized_pnl s = spec_realized_pnl ts \<and>
           realized_pnl s = spec_realized_pnl (filter confirmed ts) \<and>
           (ts = [confirmed_trade ''buy'' 10 (2 / 5), confirmed_trade ''sell'' 10 (7 / 10)]
              \<longrightarrow> realized_pnl s = - (2251799813685247 / 2251799813685248))"
proof -
  from pnl_loop_wf[OF assms(3), of pnl_zero] obtain acc where
    acc: "pnl_loop ts pnl_zero = Inr acc"
    and v: "fl (sell_revenue acc - buy_cost acc) = spec_realized_pnl ts"
    by (auto simp: pnl_zero_def spec_realized_pnl_def fl_sum_def)
  let ?s = "snapshot_of (e_now env (Suc (Suc (tick b)))) acc"
  have r: "realized_pnl ?s = spec_realized_pnl ts"
    using v by (simp add: snapshot_of_def Let_def)
  have g: "get_pnl env b = (pnl_history b @ [?s],
      b\<lparr>tick := Suc (Suc (Suc (tick b))), pnl_history := pnl_history b @ [?s]\<rparr>)"
    using assms(1,2) acc by (simp add: get_pnl_def get_pnl_body_def bump_def Let_def)
  show ?thesis
    using g r spec_realized_pnl_example
    by (intro exI[of _ ?s]) (simp add: spec_realized_pnl_confirmed)
qed

theorem get_pnl_realized_witness:
  "\<exists>s. pnl_history (snd (get_pnl env_ok init_bot)) = [s] \<and> fst (get_pnl env_ok init_bot) = [s] \<and>
       realized_pnl s = - (2251799813685247 / 2251799813685248)"
proof -
  have a: "e_get_address env_ok (tick init_bot) = Inr ''0xabc''" by (simp add: env_ok_def)
  have t: "e_get_trades env_ok (Suc (tick init_bot)) ''0xabc'' =
      Inr [confirmed_trade ''buy'' 10 (2 / 5), confirmed_trade ''sell'' 10 (7 / 10)]"
    by (simp add: env_ok_def)
  have w: "list_all wf_trade [confirmed_trade ''buy'' 10 (2 / 5), confirmed_trade ''sell'' 10 (7 / 10)]"
    by (simp add: wf_trade_def confirmed_trade_def)
  from get_pnl_realized[OF a t w] show ?thesis by (auto simp: init_bot_def)
qed

lemma get_pnl_env_ok:
  "get_pnl env_ok b =
     (pnl_history b @ [\<lparr>timestamp = ''2025-01-01T00:00:00'',
                         realized_pnl = - (2251799813685247 / 2251799813685248), rewards = 0,
                         total_pnl = - (2251799813685247 / 2251799813685248)\<rparr>],
      b\<lparr>tick := Suc (Suc (Suc (tick b))),
        pnl_history := pnl_history b @ [\<lparr>timestamp = ''2025-01-01T00:00:00'',
                         realized_pnl = - (2251799813685247 / 2251799813685248), rewards = 0,
                         total_pnl = - (2251799813685247 / 2251799813685248)\<rparr>]\<rparr>)"
  apply (simp add: get_pnl_def get_pnl_body_def env_ok_def bump_def Let_def confirmed_trade_def
      pnl_zero_def snapshot_of_def get_rewards_total_def)
  apply (simp only: fl_example)
  done

text \<open>
  As the specification states it, the property fails on its own example: over the exact numbers the
  formula gives \<open>-1\<close>, and \<open>get_pnl\<close>, which computes in doubles, records
  \<open>-(1 - 2^-51)\<close>, because \<open>1 - 0.70\<close> is not \<open>0.30\<close> in doubles.
\<close>

theorem get_pnl_realized_counterexample:
  "realized_pnl (last (fst (get_pnl env_ok init_bot))) = - (2251799813685247 / 2251799813685248) \<and>
   exact_realized_pnl [confirmed_trade ''buy'' 10 (2 / 5), confirmed_trade ''sell'' 10 (7 / 10)] = - 1 \<and>
   realized_pnl (last (fst (get_pnl env_ok init_bot))) \<noteq> - 1"
  by (simp add: get_pnl_env_ok exact_realized_pnl_example)





section \<open>Placing and cancelling\<close>

lemma place_limit_order_cases:
  "(\<exists>e b'. place_limit_order_body env m t sd sz pr fee b = (Inl e, b') \<and>
        orders b' = orders b \<and> pnl_history b' = pnl_history b \<and>
        (sent b' = sent b \<or>
         (\<exists>ms. e_min_size env (tick b) m = Inr ms \<and>
            sent b' = sent b @ [\<lparr>a_price = max (1 / 100) (min (99 / 100) pr), a_size = max ms sz,
                                  a_side = sd, a_token_id = t, a_fee_rate_bps = fee\<rparr>]))) \<or>
   (\<exists>r b' ms. place_limit_order_body env m t sd sz pr fee b = (Inr r, b') \<and>
        e_min_size env (tick b) m = Inr ms \<and> pnl_history b' = pnl_history b \<and>
        sent b' = sent b @ [\<lparr>a_price = max (1 / 100) (min (99 / 100) pr), a_size = max ms sz,
                              a_side = sd, a_token_id = t, a_fee_rate_bps = fee\<rparr>] \<and>
        (if has_order_id r
         then orders b' = orders b @
                [\<lparr>o_id = order_id_of r, o_market_id = m, o_token_id = t, o_side = sd,
                  o_size = max ms sz, o_price = max (1 / 100) (min (99 / 100) pr),
                  o_time = e_now env (Suc (Suc (Suc (tick b)))), o_status = ''live''\<rparr>]
         else orders b' = orders b))"
  by (auto simp: place_limit_order_body_def bump_def Let_def split: sum.splits)

text \<open>
  C5. Whatever price and size are asked for, \<open>place_limit_order\<close> hands at most one order
  to \<open>client.post_order\<close>, and that order has its price in \<open>[0.01, 0.99]\<close> and a size of
  at least the minimum size reported for the market in this call.
\<close>

theorem place_limit_order_clamps:
  "sent (snd (place_limit_order env market_id token_id sd sz pr fee b)) = sent b \<or>
   (\<exists>a ms. sent (snd (place_limit_order env market_id token_id sd sz pr fee b)) = sent b @ [a] \<and>
      e_min_size env (tick b) market_id = Inr ms \<and>
      1 / 100 \<le> a_price a \<and> a_price a \<le> 99 / 100 \<and> ms \<le> a_size a \<and>
      a_price a = max (1 / 100) (min (99 / 100) pr) \<and> a_size a = max ms sz)"
  using place_limit_order_cases[of env market_id token_id sd sz pr fee b]
  by (auto simp: place_limit_order_def)

lemma place_env_ok:
  "place_limit_order env_ok m t sd sz pr fee b =
     (accepted (sample_id (Suc (Suc (tick b)))
        \<lparr>a_price = max (1 / 100) (min (99 / 100) pr), a_size = max 5 sz, a_side = sd,
          a_token_id = t, a_fee_rate_bps = fee\<rparr>),
      b\<lparr>tick := Suc (Suc (Suc (Suc (tick b)))),
        sent := sent b @ [\<lparr>a_price = max (1 / 100) (min (99 / 100) pr), a_size = max 5 sz,
                            a_side = sd, a_token_id = t, a_fee_rate_bps = fee\<rparr>],
        orders := orders b @
          [\<lparr>o_id = sample_id (Suc (Suc (tick b)))
               \<lparr>a_price = max (1 / 100) (min (99 / 100) pr), a_size = max 5 sz, a_side = sd,
                 a_token_id = t, a_fee_rate_bps = fee\<rparr>,
            o_market_id = m, o_token_id = t, o_side = sd, o_size = max 5 sz,
            o_price = max (1 / 100) (min (99 / 100) pr), o_time = ''2025-01-01T00:00:00'',
            o_status = ''live''\<rparr>]\<rparr>)"
  by (simp add: place_limit_order_def place_limit_order_body_def env_ok_def bump_def Let_def
      accepted_def has_order_id_def order_id_of_def sample_id_def)

theorem place_limit_order_clamps_witness:
  "(\<exists>a. sent (snd (place_limit_order env_ok ''m'' ''t'' BUY 1 (- 3) 0 init_bot)) = [a] \<and>
        a_price a = 1 / 100 \<and> a_size a = 5) \<and>
   (\<exists>a. sent (snd (place_limit_order env_ok ''m'' ''t'' SELL 8 7 0 init_bot)) = [a] \<and>
        a_price a = 99 / 100 \<and> a_size a = 8)"
proof -
  have m: "e_min_size env_ok (tick init_bot) ''m'' = Inr 5" by (simp add: env_ok_def)
  have n1: "sent (snd (place_limit_order env_ok ''m'' ''t'' BUY 1 (- 3) 0 init_bot)) \<noteq> sent init_bot"
    and n2: "sent (snd (place_limit_order env_ok ''m'' ''t'' SELL 8 7 0 init_bot)) \<noteq> sent init_bot"
    by (simp_all add: place_env_ok)
  from place_limit_order_clamps[of env_ok "''m''" "''t''" BUY 1 "- 3" 0 init_bot] n1 m
  have 1: "\<exists>a. sent (snd (place_limit_order env_ok ''m'' ''t'' BUY 1 (- 3) 0 init_bot)) = [a] \<and>
        a_price a = 1 / 100 \<and> a_size a = 5"
    by (auto simp: init_bot_def)
  from place_limit_order_clamps[of env_ok "''m''" "''t''" SELL 8 7 0 init_bot] n2 m
  have 2: "\<exists>a. sent (snd (place_limit_order env_ok ''m'' ''t'' SELL 8 7 0 init_bot)) = [a] \<and>
        a_price a = 99 / 100 \<and> a_size a = 8"
    by (auto simp: init_bot_def)
  from 1 2 show ?thesis by simp
qed

lemma cancel_order_cases:
  "(\<exists>e. cancel_order_body env oid b = (Inl e, b\<lparr>tick := Suc (tick b)\<rparr>) \<and>
        e_cancel env (tick b) oid = Inl e) \<or>
   (\<exists>r. cancel_order_body env oid b =
          (Inr r, b\<lparr>tick := Suc (tick b), orders := map (mark_canceled oid r) (orders b)\<rparr>) \<and>
        e_cancel env (tick b) oid = Inr r)"
  by (cases "e_cancel env (tick b) oid") (auto simp: cancel_order_body_def bump_def)

lemma cancel_order_orders:
  "orders (snd (cancel_order env oid b)) =
     map (\<lambda>ord. if o_id ord = oid \<and> cancel_confirmed env oid b
                then ord\<lparr>o_status := ''canceled''\<rparr> else ord) (orders b)"
proof (cases "e_cancel env (tick b) oid")
  case (Inl e)
  then show ?thesis
    by (simp add: cancel_order_def cancel_order_body_def cancel_confirmed_def bump_def map_idI)
next
  case (Inr r)
  then show ?thesis
    by (simp add: cancel_order_def cancel_order_body_def cancel_confirmed_def bump_def
        mark_canceled_def cong: if_cong)
qed

lemma cancel_order_frame:
  "pnl_history (snd (cancel_order env oid b)) = pnl_history b"
  "sent (snd (cancel_order env oid b)) = sent b"
  "tick (snd (cancel_order env oid b)) = Suc (tick b)"
  using cancel_order_cases[of env oid b] by (auto simp: cancel_order_def)

text \<open>
  C6. \<open>place_limit_order\<close> and \<open>cancel_order\<close> return a response for every input. When
  the \<open>try\<close> block raises \<open>e\<close>, as it does when a call to the exchange raises \<open>e\<close>, the
  response is the failure result \<open>{'success': False, 'errorMsg': str(e)}\<close> and the
  registry is as before; a placement whose response carries no order id leaves the
  registry as before too.
\<close>

theorem failures_are_results:
  "(fst (place_limit_order_body env market_id token_id sd sz pr fee b) = Inl e \<longrightarrow>
      fst (place_limit_order env market_id token_id sd sz pr fee b) = failure_result e \<and>
      r_success (fst (place_limit_order env market_id token_id sd sz pr fee b)) = Some False \<and>
      r_errorMsg (fst (place_limit_order env market_id token_id sd sz pr fee b)) = Some (msg_of e) \<and>
      orders (snd (place_limit_order env market_id token_id sd sz pr fee b)) = orders b) \<and>
   (e_min_size env (tick b) market_id = Inl e \<longrightarrow>
      fst (place_limit_order_body env market_id token_id sd sz pr fee b) = Inl e) \<and>
   (e_min_size env (tick b) market_id = Inr ms \<and> (\<forall>a. e_create_order env (Suc (tick b)) a = Inl e) \<longrightarrow>
      fst (place_limit_order_body env market_id token_id sd sz pr fee b) = Inl e) \<and>
   (e_min_size env (tick b) market_id = Inr ms \<and> (\<forall>a. e_create_order env (Suc (tick b)) a = Inr ()) \<and>
    (\<forall>a. e_post_order env (Suc (Suc (tick b))) a = Inl e) \<longrightarrow>
      fst (place_limit_order_body env market_id token_id sd sz pr fee b) = Inl e) \<and>
   (\<not> has_order_id (fst (place_limit_order env market_id token_id sd sz pr fee b)) \<longrightarrow>
      orders (snd (place_limit_order env market_id token_id sd sz pr fee b)) = orders b) \<and>
   (fst (cancel_order_body env order_id b) = Inl e \<longrightarrow>
      fst (cancel_order env order_id b) = failure_result e \<and>
      r_success (fst (cancel_order env order_id b)) = Some False \<and>
      r_errorMsg (fst (cancel_order env order_id b)) = Some (msg_of e) \<and>
      orders (snd (cancel_order env order_id b)) = orders b) \<and>
   (e_cancel env (tick b) order_id = Inl e \<longrightarrow>
      fst (cancel_order_body env order_id b) = Inl e)"
proof (intro conjI impI)
  assume "fst (place_limit_order_body env market_id token_id sd sz pr fee b) = Inl e"
  then show "fst (place_limit_order env market_id token_id sd sz pr fee b) = failure_result e"
    "r_success (fst (place_limit_order env market_id token_id sd sz pr fee b)) = Some False"
    "r_errorMsg (fst (place_limit_order env market_id token_id sd sz pr fee b)) = Some (msg_of e)"
    "orders (snd (place_limit_order env market_id token_id sd sz pr fee b)) = orders b"
    using place_limit_order_cases[of env market_id token_id sd sz pr fee b]
    by (auto simp: place_limit_order_def failure_result_def)
next
  assume "e_min_size env (tick b) market_id = Inl e"
  then show "fst (place_limit_order_body env market_id token_id sd sz pr fee b) = Inl e"
    by (simp add: place_limit_order_body_def)
next
  assume "e_min_size env (tick b) market_id = Inr ms \<and> (\<forall>a. e_create_order env (Suc (tick b)) a = Inl e)"
  then show "fst (place_limit_order_body env market_id token_id sd sz pr fee b) = Inl e"
    by (simp add: place_limit_order_body_def bump_def Let_def)
next
  assume "e_min_size env (tick b) market_id = Inr ms \<and> (\<forall>a. e_create_order env (Suc (tick b)) a = Inr ()) \<and>
    (\<forall>a. e_post_order env (Suc (Suc (tick b))) a = Inl e)"
  then show "fst (place_limit_order_body env market_id token_id sd sz pr fee b) = Inl e"
    by (simp add: place_limit_order_body_def bump_def Let_def)
next
  assume "\<not> has_order_id (fst (place_limit_order env market_id token_id sd sz pr fee b))"
  then show "orders (snd (place_limit_order env market_id token_id sd sz pr fee b)) = orders b"
    using place_limit_order_cases[of env market_id token_id sd sz pr fee b]
    by (auto simp: place_limit_order_def split: if_splits)
next
  assume "fst (cancel_order_body env order_id b) = Inl e"
  then show "fst (cancel_order env order_id b) = failure_result e"
    "r_success (fst (cancel_order env order_id b)) = Some False"
    "r_errorMsg (fst (cancel_order env order_id b)) = Some (msg_of e)"
    "orders (snd (cancel_order env order_id b)) = orders b"
    using cancel_order_cases[of env order_id b]
    by (auto simp: cancel_order_def failure_result_def)
next
  assume "e_cancel env (tick b) order_id = Inl e"
  then show "fst (cancel_order_body env order_id b) = Inl e"
    by (simp add: cancel_order_body_def)
qed

theorem failures_are_results_witness:
  "fst (place_limit_order env_down ''m'' ''t'' BUY 10 (1 / 2) 0 two_quotes) =
     \<lparr>r_orderID = None, r_canceled = None, r_success = Some False,
      r_errorMsg = Some ''no attribute get_market_min_size''\<rparr> \<and>
   orders (snd (place_limit_order env_down ''m'' ''t'' BUY 10 (1 / 2) 0 two_quotes)) = orders two_quotes \<and>
   fst (cancel_order env_down ''b1'' two_quotes) =
     \<lparr>r_orderID = None, r_canceled = None, r_success = Some False,
      r_errorMsg = Some ''connection refused''\<rparr> \<and>
   orders (snd (cancel_order env_down ''b1'' two_quotes)) = orders two_quotes"
proof -
  have m: "e_min_size env_down (tick two_quotes) ''m'' = Inl (Exc ''no attribute get_market_min_size'')"
    and c: "e_cancel env_down (tick two_quotes) ''b1'' = Inl (Exc ''connection refused'')"
    by (simp_all add: env_down_def)
  from failures_are_results[of env_down "''m''" "''t''" BUY 10 "1 / 2" 0 two_quotes
      "Exc ''no attribute get_market_min_size''" 0 "''b1''"] m
  have 1: "fst (place_limit_order env_down ''m'' ''t'' BUY 10 (1 / 2) 0 two_quotes) =
     failure_result (Exc ''no attribute get_market_min_size'') \<and>
     orders (snd (place_limit_order env_down ''m'' ''t'' BUY 10 (1 / 2) 0 two_quotes)) = orders two_quotes"
    by simp
  from failures_are_results[of env_down "''m''" "''t''" BUY 10 "1 / 2" 0 two_quotes
      "Exc ''connection refused''" 0 "''b1''"] c
  have 2: "fst (cancel_order env_down ''b1'' two_quotes) = failure_result (Exc ''connection refused'') \<and>
     orders (snd (cancel_order env_down ''b1'' two_quotes)) = orders two_quotes"
    by simp
  from 1 2 show ?thesis by (simp add: failure_result_def)
qed

text \<open>
  C7. \<open>cancel_order\<close> keeps the length and the order of the registry. An entry is
  rewritten exactly when its id is the cancelled id and the exchange confirmed the
  cancellation, and then only its status changes, to \<open>canceled\<close>; every other entry, and
  every entry when the id is not in the canceled-set or the call raised, is left as it
  was. The PnL history is not touched.
\<close>

theorem cancel_order_frame_condition:
  "length (orders (snd (cancel_order env order_id b))) = length (orders b) \<and>
   (\<forall>i < length (orders b).
      orders (snd (cancel_order env order_id b)) ! i =
        (if o_id (orders b ! i) = order_id \<and> cancel_confirmed env order_id b
         then (orders b ! i)\<lparr>o_status := ''canceled''\<rparr>
         else orders b ! i)) \<and>
   pnl_history (snd (cancel_order env order_id b)) = pnl_history b"
  by (simp add: cancel_order_orders cancel_order_frame)

theorem cancel_order_frame_condition_witness:
  "orders (snd (cancel_order env_ok ''b1'' two_quotes)) =
     [(live_order ''b1'' BUY)\<lparr>o_status := ''canceled''\<rparr>, live_order ''s1'' SELL] \<and>
   orders (snd (cancel_order env_deaf ''b1'' two_quotes)) =
     [live_order ''b1'' BUY, live_order ''s1'' SELL]"
proof -
  have c: "cancel_confirmed env_ok ''b1'' two_quotes" "\<not> cancel_confirmed env_deaf ''b1'' two_quotes"
    by (simp_all add: cancel_confirmed_def env_ok_def env_deaf_def cancel_reply_def canceled_of_def)
  have l: "length (orders two_quotes) = 2" "orders two_quotes ! 0 = live_order ''b1'' BUY"
    "orders two_quotes ! 1 = live_order ''s1'' SELL"
    "o_id (live_order ''b1'' BUY) = ''b1''" "o_id (live_order ''s1'' SELL) = ''s1''"
    by (simp_all add: two_quotes_def live_order_def)
  have all2: "\<And>P. (\<forall>i<(2::nat). P i) = (P 0 \<and> P 1)"
    by (auto simp: less_Suc_eq numeral_2_eq_2)
  from cancel_order_frame_condition[of env_ok "''b1''" two_quotes] c l
  have 1: "orders (snd (cancel_order env_ok ''b1'' two_quotes)) =
     [(live_order ''b1'' BUY)\<lparr>o_status := ''canceled''\<rparr>, live_order ''s1'' SELL]"
    by (intro nth_equalityI) (auto simp: all2 less_Suc_eq numeral_2_eq_2)
  from cancel_order_frame_condition[of env_deaf "''b1''" two_quotes] c l
  have 2: "orders (snd (cancel_order env_deaf ''b1'' two_quotes)) =
     [live_order ''b1'' BUY, live_order ''s1'' SELL]"
    by (intro nth_equalityI) (auto simp: all2 less_Suc_eq numeral_2_eq_2)
  from 1 2 show ?thesis by simp
qed

section \<open>The strategy loop\<close>

lemma failure_result_no_id: "\<not> has_order_id (failure_result e)"
  by (simp add: has_order_id_def order_id_of_def failure_result_def)

lemma place_limit_order_result:
  obtains r b' where "place_limit_order env m t sd sz pr fee b = (r, b')"
    and "pnl_history b' = pnl_history b"
    and "\<not> has_order_id r \<Longrightarrow> orders b' = orders b"
    and "has_order_id r \<Longrightarrow> \<exists>new. orders b' = orders b @ [new] \<and> o_id new = order_id_of r \<and>
           on_instrument m t new \<and> o_side new = sd \<and> o_status new = ''live''"
proof -
  from place_limit_order_cases[of env m t sd sz pr fee b]
  consider (err) e b' where "place_limit_order_body env m t sd sz pr fee b = (Inl e, b')"
      "orders b' = orders b" "pnl_history b' = pnl_history b"
    | (ok) r b' where "place_limit_order_body env m t sd sz pr fee b = (Inr r, b')"
      "pnl_history b' = pnl_history b"
      "\<not> has_order_id r \<Longrightarrow> orders b' = orders b"
      "has_order_id r \<Longrightarrow> \<exists>new. orders b' = orders b @ [new] \<and> o_id new = order_id_of r \<and>
           on_instrument m t new \<and> o_side new = sd \<and> o_status new = ''live''"
    by (auto simp: on_instrument_def split: if_splits)
  then show ?thesis
  proof cases
    case err
    then have "place_limit_order env m t sd sz pr fee b = (failure_result e, b')"
      by (simp add: place_limit_order_def)
    with err failure_result_no_id show ?thesis by (intro that[of "failure_result e" b']) auto
  next
    case ok
    then have "place_limit_order env m t sd sz pr fee b = (r, b')"
      by (simp add: place_limit_order_def)
    with ok show ?thesis by (intro that[of r b']) auto
  qed
qed


lemma track_none: "\<not> has_order_id r \<Longrightarrow> track r b = None"
  by (simp add: track_def)

lemma strategy_cycle_skip:
  "fst (get_mid_price env m t b) = 0 \<Longrightarrow>
   strategy_cycle env m t sz sp (b, ab, asl) = (bump (snd (get_mid_price env m t b)), ab, asl)"
  by (simp add: strategy_cycle_def split_beta)

lemma strategy_cycle_quote:
  "fst (get_mid_price env m t b) \<noteq> 0 \<Longrightarrow>
   \<exists>p1 p2. strategy_cycle env m t sz sp (b, ab, asl) =
     (bump (snd (place_limit_order env m t SELL sz p2 0
              (snd (place_limit_order env m t BUY sz p1 0
                 (cancel_active env asl (cancel_active env ab (snd (get_mid_price env m t b)))))))),
      track (fst (place_limit_order env m t BUY sz p1 0
                 (cancel_active env asl (cancel_active env ab (snd (get_mid_price env m t b))))))
            (snd (place_limit_order env m t BUY sz p1 0
                 (cancel_active env asl (cancel_active env ab (snd (get_mid_price env m t b)))))),
      track (fst (place_limit_order env m t SELL sz p2 0
              (snd (place_limit_order env m t BUY sz p1 0
                 (cancel_active env asl (cancel_active env ab (snd (get_mid_price env m t b))))))))
            (snd (place_limit_order env m t SELL sz p2 0
              (snd (place_limit_order env m t BUY sz p1 0
                 (cancel_active env asl (cancel_active env ab (snd (get_mid_price env m t b)))))))))"
  by (intro exI[of _ "max (1 / 100) (py_round2 (fl (fst (get_mid_price env m t b) - sp)))"]
            exI[of _ "min (99 / 100) (py_round2 (fl (fst (get_mid_price env m t b) + sp)))"])
     (simp add: strategy_cycle_def Let_def split_beta)

lemma get_mid_price_frame:
  "orders (snd (get_mid_price env m t b)) = orders b"
  "pnl_history (snd (get_mid_price env m t b)) = pnl_history b"
  by (simp_all add: get_mid_price_def bump_def)

lemma bump_frame: "orders (bump b) = orders b" "pnl_history (bump b) = pnl_history b"
  by (simp_all add: bump_def)

lemma cancel_active_orders:
  "orders (cancel_active env active b) =
     map (\<lambda>ord. if tracks active ord \<and> (\<exists>a. active = Some a \<and> cancel_confirmed env (o_id a) b)
                then ord\<lparr>o_status := ''canceled''\<rparr> else ord) (orders b)"
proof (cases active)
  case None
  then show ?thesis by (simp add: cancel_active_def tracks_def map_idI)
next
  case (Some a)
  then show ?thesis
    by (simp add: cancel_active_def tracks_def cancel_order_orders eq_commute cong: if_cong)
qed

lemma cancel_active_pnl: "pnl_history (cancel_active env active b) = pnl_history b"
  by (cases active) (simp_all add: cancel_active_def cancel_order_frame)





lemma no_live_quotes_orders:
  "orders b = orders b' \<Longrightarrow> no_live_quotes m t b = no_live_quotes m t b'"
  by (simp add: no_live_quotes_def live_on_def)







lemma run_loop_invariant:
  assumes step: "\<And>b ab asl. P (b, ab, asl) \<Longrightarrow> P (strategy_cycle env m t sz sp (bump b, ab, asl))"
    and tk: "\<And>b ab asl. P (b, ab, asl) \<Longrightarrow> P (bump b, ab, asl)"
  shows "P ls \<Longrightarrow> run_loop n env m t sz sp end_time ls = Some ls' \<Longrightarrow> P ls'"
proof (induction n arbitrary: ls)
  case 0
  then show ?case by simp
next
  case (Suc n)
  obtain b ab asl where ls: "ls = (b, ab, asl)" by (cases ls) auto
  show ?case
  proof (cases "e_time env (tick b) < end_time")
    case True
    with Suc.prems(2) ls
    have "run_loop n env m t sz sp end_time (strategy_cycle env m t sz sp (bump b, ab, asl)) = Some ls'"
      by simp
    moreover have "P (strategy_cycle env m t sz sp (bump b, ab, asl))"
      using Suc.prems(1) ls step by blast
    ultimately show ?thesis by (rule Suc.IH[rotated])
  next
    case False
    with Suc.prems(2) ls have "ls' = (bump b, ab, asl)" by simp
    with Suc.prems(1) ls tk show ?thesis by blast
  qed
qed


lemma loop_heads_last: "last (loop_heads n env m t sz sp end_time ls) \<in> set (loop_heads n env m t sz sp end_time ls)"
  by (cases n; cases ls) (auto simp del: last_in_set intro!: last_in_set)




section \<open>Runs on the sample environments\<close>

lemma mid_price_sample: "mid_price_of (Inr [bid_row (2 / 5), bid_row (9 / 20)]) = 29 / 40"
  by (simp add: mid_price_of_def get_mid_price_body_def bid_row_def py_max_by_price_def
      py_min_by_price_def)

lemma get_mid_price_env_ok: "get_mid_price env_ok m t b = (29 / 40, bump b)"
  by (simp add: get_mid_price_def env_ok_def mid_price_sample)

lemma get_mid_price_env_deaf: "get_mid_price env_deaf m t b = (29 / 40, bump b)"
  by (simp add: get_mid_price_def env_deaf_def env_ok_def mid_price_sample)

lemma place_env_deaf:
  "place_limit_order env_deaf m t sd sz pr fee b = place_limit_order env_ok m t sd sz pr fee b"
  by (simp add: place_limit_order_def place_limit_order_body_def env_deaf_def env_ok_def Let_def)

lemma mark_canceled_none: "mark_canceled oid (cancel_reply []) = (\<lambda>ord. ord)"
  by (rule ext) (simp add: mark_canceled_def cancel_reply_def canceled_of_def)

lemma mark_canceled_self:
  "mark_canceled oid (cancel_reply [oid]) =
     (\<lambda>ord. if o_id ord = oid then ord\<lparr>o_status := ''canceled''\<rparr> else ord)"
  by (rule ext) (simp add: mark_canceled_def cancel_reply_def canceled_of_def)

lemma cancel_env_deaf: "snd (cancel_order env_deaf oid b) = bump b"
  by (simp add: cancel_order_def cancel_order_body_def env_deaf_def env_ok_def
      mark_canceled_none bump_def)

lemma cancel_env_ok:
  "snd (cancel_order env_ok oid b) =
     (bump b)\<lparr>orders := map (\<lambda>ord. if o_id ord = oid then ord\<lparr>o_status := ''canceled''\<rparr> else ord)
                          (orders b)\<rparr>"
  by (simp add: cancel_order_def cancel_order_body_def env_ok_def mark_canceled_self bump_def)


text \<open>
  The doubles of the sample run: \<open>0.725 - 0.03\<close>, \<open>0.725 + 0.03\<close>, their roundings
  \<open>0.69\<close> and \<open>0.76\<close>, the size \<open>10 / 2\<close> and the durations in seconds.
\<close>

lemma fl_samples:
  "fl (139 / 200) = 6260003482044989 / 9007199254740992"
  "fl (151 / 200) = 6800435437329449 / 9007199254740992"
  "fl (69 / 100) = 1553741871442821 / 2251799813685248"
  "fl (19 / 25) = 3422735716801577 / 4503599627370496"
  "fl 5 = 5"
  "fl 60 = 60"
  using fl_eval[of "- 1" "139 / 200"] fl_eval[of "- 1" "151 / 200"] fl_eval[of "- 1" "69 / 100"]
    fl_eval[of "- 1" "19 / 25"] fl_eval[of 2 5] fl_eval[of 5 60]
  by (simp_all add: round_half_even_def Let_def pow2_def)

lemma py_round2_samples:
  "py_round2 (6260003482044989 / 9007199254740992) = 1553741871442821 / 2251799813685248"
  "py_round2 (6800435437329449 / 9007199254740992) = 3422735716801577 / 4503599627370496"
  by (simp_all add: py_round2_def round_half_even_def Let_def fl_samples)
lemma e_time_samples: "e_time env_ok n = 30 * real n" "e_time env_deaf n = 30 * real n"
  by (simp_all add: env_ok_def env_deaf_def)

lemmas sample_run_simps =
  strategy_start_def init_bot_def bump_def strategy_cycle_def strategy_end_time_def
  get_mid_price_env_ok get_mid_price_env_deaf cancel_active_def cancel_env_deaf cancel_env_ok
  place_env_deaf place_env_ok track_def has_order_id_def order_id_of_def accepted_def
  sample_id_def fl_samples py_round2_samples e_time_samples Let_def

lemma deaf_two_cycles:
  "map o_id (orders (fst (loop_heads (Suc (Suc 0)) env_deaf ''m'' ''t'' 5 (3 / 100) 600
     (strategy_start init_bot) ! 2))) = [''b1'', ''s1'', ''b2'', ''s2'']"
  "map o_status (orders (fst (loop_heads (Suc (Suc 0)) env_deaf ''m'' ''t'' 5 (3 / 100) 600
     (strategy_start init_bot) ! 2))) = [''live'', ''live'', ''live'', ''live'']"
  "map o_price (orders (fst (loop_heads (Suc (Suc 0)) env_deaf ''m'' ''t'' 5 (3 / 100) 600
     (strategy_start init_bot) ! 2))) =
     [1553741871442821 / 2251799813685248, 3422735716801577 / 4503599627370496,
      1553741871442821 / 2251799813685248, 3422735716801577 / 4503599627370496]"
  by (simp_all add: sample_run_simps)








section \<open>The statuses of the registry\<close>

lemma evolves_iff:
  "evolves old new \<longleftrightarrow>
     length old \<le> length new \<and>
     (\<forall>i<length old. entry_step (old ! i) (new ! i)) \<and>
     (\<forall>i. length old \<le> i \<and> i < length new \<longrightarrow> status_ok (new ! i))"
proof (cases "length old \<le> length new")
  case False
  then show ?thesis by (simp add: evolves_def)
next
  case True
  have a: "list_all2 entry_step old (take (length old) new) \<longleftrightarrow>
        (\<forall>i<length old. entry_step (old ! i) (new ! i))"
    using True by (simp add: list_all2_conv_all_nth)
  have b: "list_all status_ok (drop (length old) new) \<longleftrightarrow>
        (\<forall>i. length old \<le> i \<and> i < length new \<longrightarrow> status_ok (new ! i))"
  proof
    assume l: "list_all status_ok (drop (length old) new)"
    show "\<forall>i. length old \<le> i \<and> i < length new \<longrightarrow> status_ok (new ! i)"
    proof (intro allI impI)
      fix i assume i: "length old \<le> i \<and> i < length new"
      then have "i - length old < length (drop (length old) new)" by auto
      with l have "status_ok (drop (length old) new ! (i - length old))"
        by (simp only: list_all_length)
      with i show "status_ok (new ! i)" by simp
    qed
  next
    assume r: "\<forall>i. length old \<le> i \<and> i < length new \<longrightarrow> status_ok (new ! i)"
    show "list_all status_ok (drop (length old) new)"
      unfolding list_all_length
    proof (intro allI impI)
      fix n assume "n < length (drop (length old) new)"
      then have "length old \<le> length old + n \<and> length old + n < length new" by auto
      with r have "status_ok (new ! (length old + n))" by blast
      then show "status_ok (drop (length old) new ! n)" using True by simp
    qed
  qed
  show ?thesis unfolding evolves_def a b using True by simp
qed

lemma entry_step_refl: "entry_step ord ord"
  by (simp add: entry_step_def)

lemma entry_step_status: "status_ok ord \<Longrightarrow> entry_step ord ord' \<Longrightarrow> status_ok ord'"
  by (auto simp: entry_step_def status_ok_def)

lemma entry_step_trans: "entry_step a b \<Longrightarrow> entry_step b c \<Longrightarrow> entry_step a c"
  by (auto simp: entry_step_def)

lemma evolves_refl: "evolves xs xs"
  by (auto simp: evolves_iff entry_step_refl)

lemma evolves_status:
  assumes "list_all status_ok old" "evolves old new"
  shows "list_all status_ok new"
  unfolding list_all_length
proof (intro allI impI)
  fix i assume i: "i < length new"
  show "status_ok (new ! i)"
  proof (cases "i < length old")
    case True
    with assms(1) have "status_ok (old ! i)" by (simp add: list_all_length)
    moreover from assms(2) True have "entry_step (old ! i) (new ! i)" by (simp add: evolves_iff)
    ultimately show ?thesis by (rule entry_step_status)
  next
    case False
    with assms(2) i show ?thesis by (simp add: evolves_iff)
  qed
qed

lemma evolves_trans:
  assumes s: "list_all status_ok a" and ab: "evolves a b" and bc: "evolves b c"
  shows "evolves a c"
  unfolding evolves_iff
proof (intro conjI allI impI)
  from ab bc show "length a \<le> length c" by (simp add: evolves_iff)
next
  fix i assume "i < length a"
  moreover then have "i < length b" using ab by (simp add: evolves_iff)
  ultimately show "entry_step (a ! i) (c ! i)"
    using ab bc by (auto simp: evolves_iff intro: entry_step_trans)
next
  fix i assume i: "length a \<le> i \<and> i < length c"
  have sb: "list_all status_ok b" using s ab by (rule evolves_status)
  show "status_ok (c ! i)"
  proof (cases "i < length b")
    case True
    with sb have "status_ok (b ! i)" by (simp add: list_all_length)
    moreover from bc True have "entry_step (b ! i) (c ! i)" by (simp add: evolves_iff)
    ultimately show ?thesis by (rule entry_step_status)
  next
    case False
    with bc i show ?thesis by (simp add: evolves_iff)
  qed
qed

lemma evolves_append:
  "list_all (\<lambda>ord. o_status ord = ''live'') ext \<Longrightarrow> evolves xs (xs @ ext)"
  by (simp add: evolves_def list_all2_conv_all_nth entry_step_refl status_ok_def list_all_iff)

lemma place_limit_order_extends:
  "\<exists>ext. orders (snd (place_limit_order env m t sd sz pr fee b)) = orders b @ ext \<and>
         length ext \<le> 1 \<and> list_all (\<lambda>ord. o_status ord = ''live'') ext"
proof -
  obtain r b' where p: "place_limit_order env m t sd sz pr fee b = (r, b')"
    and n: "\<not> has_order_id r \<Longrightarrow> orders b' = orders b"
    and y: "has_order_id r \<Longrightarrow> \<exists>new. orders b' = orders b @ [new] \<and> o_id new = order_id_of r \<and>
           on_instrument m t new \<and> o_side new = sd \<and> o_status new = ''live''"
    by (rule place_limit_order_result[of env m t sd sz pr fee b]) blast
  show ?thesis
  proof (cases "has_order_id r")
    case True
    from y[OF True] obtain new where "orders b' = orders b @ [new]" "o_status new = ''live''"
      by blast
    with p show ?thesis by (intro exI[of _ "[new]"]) simp
  next
    case False
    from n[OF False] p show ?thesis by (intro exI[of _ "[]"]) simp
  qed
qed

lemma place_limit_order_evolves:
  "evolves (orders b) (orders (snd (place_limit_order env m t sd sz pr fee b)))"
  using place_limit_order_extends[of env m t sd sz pr fee b] by (auto intro: evolves_append)

lemma cancel_order_steps:
  assumes "list_all status_ok (orders b)"
  shows "list_all2 entry_step (orders b) (orders (snd (cancel_order env oid b)))"
  unfolding cancel_order_orders list_all2_conv_all_nth
proof (intro conjI allI impI)
  show "length (orders b) =
    length (map (\<lambda>ord. if o_id ord = oid \<and> cancel_confirmed env oid b
                        then ord\<lparr>o_status := ''canceled''\<rparr> else ord) (orders b))" by simp
next
  fix i assume i: "i < length (orders b)"
  with assms have "status_ok (orders b ! i)" by (simp add: list_all_length)
  then have "entry_step (orders b ! i) ((orders b ! i)\<lparr>o_status := ''canceled''\<rparr>)"
    by (auto simp: entry_step_def status_ok_def)
  with i show "entry_step (orders b ! i)
     (map (\<lambda>ord. if o_id ord = oid \<and> cancel_confirmed env oid b
                  then ord\<lparr>o_status := ''canceled''\<rparr> else ord) (orders b) ! i)"
    by (simp add: entry_step_refl)
qed

lemma cancel_order_evolves:
  assumes "list_all status_ok (orders b)"
  shows "evolves (orders b) (orders (snd (cancel_order env oid b)))"
  using cancel_order_steps[OF assms, of env oid]
  by (simp add: evolves_def list_all2_lengthD)

lemma cancel_active_evolves:
  assumes "list_all status_ok (orders b)"
  shows "evolves (orders b) (orders (cancel_active env active b))"
  by (cases active) (simp_all add: cancel_active_def evolves_refl cancel_order_evolves[OF assms])

lemma evolves_chain:
  assumes "list_all status_ok (orders b)" "evolves (orders b) (orders b1)"
    and "list_all status_ok (orders b1) \<Longrightarrow> evolves (orders b1) (orders b2)"
  shows "evolves (orders b) (orders b2)"
  using assms evolves_status evolves_trans by blast

lemma strategy_cycle_evolves:
  assumes s: "list_all status_ok (orders b)"
  shows "evolves (orders b) (orders (fst (strategy_cycle env m t sz sp (bump b, ab, asl))))"
proof (cases "fst (get_mid_price env m t (bump b)) = 0")
  case True
  then show ?thesis
    by (simp add: strategy_cycle_skip bump_frame get_mid_price_frame evolves_refl)
next
  case False
  let ?b1 = "snd (get_mid_price env m t (bump b))"
  let ?b2 = "cancel_active env ab ?b1"
  let ?b3 = "cancel_active env asl ?b2"
  have o1: "orders ?b1 = orders b" by (simp add: bump_frame get_mid_price_frame)
  from strategy_cycle_quote[OF False, of sz sp ab asl] obtain p1 p2 where
    c: "orders (fst (strategy_cycle env m t sz sp (bump b, ab, asl))) =
        orders (snd (place_limit_order env m t SELL sz p2 0
              (snd (place_limit_order env m t BUY sz p1 0 ?b3))))"
    by (auto simp: bump_frame)
  let ?b4 = "snd (place_limit_order env m t BUY sz p1 0 ?b3)"
  let ?b5 = "snd (place_limit_order env m t SELL sz p2 0 ?b4)"
  have e1: "evolves (orders b) (orders ?b2)"
    using cancel_active_evolves[of ?b1 env ab] s o1 by simp
  have e2: "evolves (orders b) (orders ?b3)"
    by (rule evolves_chain[OF s e1]) (rule cancel_active_evolves)
  have e3: "evolves (orders b) (orders ?b4)"
    by (rule evolves_chain[OF s e2]) (rule place_limit_order_evolves)
  have e4: "evolves (orders b) (orders ?b5)"
    by (rule evolves_chain[OF s e3]) (rule place_limit_order_evolves)
  then show ?thesis by (simp only: c)
qed

lemma run_strategy_evolves:
  assumes s: "list_all status_ok (orders b)"
    and r: "run_strategy n env m t risk sp dur b = Some b'"
  shows "evolves (orders b) (orders b')"
proof -
  let ?P = "\<lambda>ls :: loop_state.
      list_all status_ok (orders (fst ls)) \<and> evolves (orders b) (orders (fst ls))"
  from r obtain b1 ab asl where
    l: "run_loop n env m t (fl (risk / 2)) sp (strategy_end_time env dur b) (strategy_start b) = Some (b1, ab, asl)"
    and b': "b' = cancel_active env asl (cancel_active env ab b1)"
    by (auto simp: run_strategy_def Let_def split: option.splits)
  have start: "?P (strategy_start b)"
    using s by (simp add: strategy_start_def bump_frame evolves_refl)
  have "?P (b1, ab, asl)"
  proof (rule run_loop_invariant[where P = ?P, OF _ _ start l])
    fix b0 ab0 asl0 assume p: "?P (b0, ab0, asl0)"
    then have s0: "list_all status_ok (orders b0)" and e0: "evolves (orders b) (orders b0)"
      by simp_all
    have c: "evolves (orders b0) (orders (fst (strategy_cycle env m t (fl (risk / 2)) sp (bump b0, ab0, asl0))))"
      using s0 by (rule strategy_cycle_evolves)
    from evolves_status[OF s0 c] evolves_trans[OF s e0 c]
    show "?P (strategy_cycle env m t (fl (risk / 2)) sp (bump b0, ab0, asl0))" by simp
  next
    fix b0 ab0 asl0 assume "?P (b0, ab0, asl0)"
    then show "?P (bump b0, ab0, asl0)" by (simp add: bump_frame)
  qed
  then have s1: "list_all status_ok (orders b1)" and e1: "evolves (orders b) (orders b1)"
    by simp_all
  have e2: "evolves (orders b) (orders (cancel_active env ab b1))"
    by (rule evolves_chain[OF s e1]) (rule cancel_active_evolves)
  have "evolves (orders b) (orders (cancel_active env asl (cancel_active env ab b1)))"
    by (rule evolves_chain[OF s e2]) (rule cancel_active_evolves)
  with b' show ?thesis by simp
qed

lemma get_pnl_orders: "orders (snd (get_pnl env b)) = orders b"
  using get_pnl_cases[of env b] by (auto simp: get_pnl_def)

lemma exec_evolves:
  assumes "list_all status_ok (orders b)" "exec env x b = Some b'"
  shows "evolves (orders b) (orders b')"
proof (cases x)
  case (Place m t sd sz pr fee)
  with assms(2) show ?thesis by (auto intro: place_limit_order_evolves)
next
  case (Cancel oid)
  with assms show ?thesis by (auto intro: cancel_order_evolves)
next
  case (MidPrice m t)
  with assms(2) show ?thesis by (auto simp: get_mid_price_frame evolves_refl)
next
  case (Run n m t risk sp dur)
  with assms show ?thesis by (auto intro: run_strategy_evolves)
next
  case Pnl
  with assms(2) show ?thesis by (auto simp: get_pnl_orders evolves_refl)
qed

lemma exec_all_status:
  "list_all status_ok (orders b0) \<Longrightarrow> exec_all env xs b0 = Some b \<Longrightarrow> list_all status_ok (orders b)"
proof (induction xs arbitrary: b0)
  case Nil
  then show ?case by simp
next
  case (Cons x xs)
  from Cons.prems(2) obtain b1 where x: "exec env x b0 = Some b1" and r: "exec_all env xs b1 = Some b"
    by (auto split: option.splits)
  from evolves_status[OF Cons.prems(1) exec_evolves[OF Cons.prems(1) x]]
  have "list_all status_ok (orders b1)" .
  from Cons.IH[OF this r] show ?case .
qed
text \<open>
  C10. In every state the bot reaches from \<open>__init__\<close> by its operations, each entry of
  the registry has status \<open>live\<close> or \<open>canceled\<close> (so never \<open>pending\<close> or \<open>failed\<close>). Every
  operation keeps the old entries in place, each as it was or taken from \<open>live\<close> to
  \<open>canceled\<close> with nothing else changed, and adds new entries only at the end;
  \<open>place_limit_order\<close> appends at most one entry, with status \<open>live\<close>, and changes no
  other; \<open>cancel_order\<close> appends none; \<open>get_mid_price\<close> and \<open>get_pnl\<close> leave the registry
  as it is.
\<close>

theorem registry_status_invariant:
  assumes "exec_all env xs init_bot = Some b"
  shows "list_all status_ok (orders b) \<and>
         (\<forall>x b'. exec env x b = Some b' \<longrightarrow> evolves (orders b) (orders b')) \<and>
         (\<forall>m t sd sz pr fee.
            \<exists>ext. orders (snd (place_limit_order env m t sd sz pr fee b)) = orders b @ ext \<and>
                  length ext \<le> 1 \<and> list_all (\<lambda>ord. o_status ord = ''live'') ext) \<and>
         (\<forall>oid. list_all2 entry_step (orders b) (orders (snd (cancel_order env oid b)))) \<and>
         (\<forall>m t. orders (snd (get_mid_price env m t b)) = orders b) \<and>
         orders (snd (get_pnl env b)) = orders b"
proof -
  have "list_all status_ok (orders init_bot)" by (simp add: init_bot_def)
  from exec_all_status[OF this assms] have s: "list_all status_ok (orders b)" .
  show ?thesis
  proof (intro conjI allI impI)
    show "list_all status_ok (orders b)" by (rule s)
  next
    fix x b' assume "exec env x b = Some b'"
    with s show "evolves (orders b) (orders b')" by (rule exec_evolves)
  next
    fix m t sd sz pr fee
    show "\<exists>ext. orders (snd (place_limit_order env m t sd sz pr fee b)) = orders b @ ext \<and>
                  length ext \<le> 1 \<and> list_all (\<lambda>ord. o_status ord = ''live'') ext"
      by (rule place_limit_order_extends)
  next
    fix oid
    from s show "list_all2 entry_step (orders b) (orders (snd (cancel_order env oid b)))"
      by (rule cancel_order_steps)
  next
    fix m t
    show "orders (snd (get_mid_price env m t b)) = orders b" by (rule get_mid_price_frame)
  next
    show "orders (snd (get_pnl env b)) = orders b" by (rule get_pnl_orders)
  qed
qed

lemma sample_ops:
  "\<exists>b. exec_all env_ok [Run (Suc (Suc 0)) ''m'' ''t'' 10 (3 / 100) 1, Pnl,
                        Place ''m'' ''t'' BUY 5 (1 / 2) 0] init_bot = Some b \<and>
       map o_status (orders b) = [''canceled'', ''canceled'', ''live''] \<and>
       map o_status (orders (snd (cancel_order env_ok ''b2'' b))) =
         [''canceled'', ''canceled'', ''canceled'']"
  by (simp add: run_strategy_def run_loop.simps sample_run_simps get_pnl_env_ok)

theorem registry_status_invariant_witness:
  "\<exists>b. exec_all env_ok [Run (Suc (Suc 0)) ''m'' ''t'' 10 (3 / 100) 1, Pnl,
                        Place ''m'' ''t'' BUY 5 (1 / 2) 0] init_bot = Some b \<and>
       map o_status (orders b) = [''canceled'', ''canceled'', ''live''] \<and>
       map o_status (orders (snd (cancel_order env_ok ''b2'' b))) =
         [''canceled'', ''canceled'', ''canceled''] \<and>
       list_all status_ok (orders b) \<and>
       evolves (orders b) (orders (snd (cancel_order env_ok ''b2'' b)))"
proof -
  from sample_ops obtain b where
    rs: "exec_all env_ok [Run (Suc (Suc 0)) ''m'' ''t'' 10 (3 / 100) 1, Pnl,
                        Place ''m'' ''t'' BUY 5 (1 / 2) 0] init_bot = Some b \<and>
       map o_status (orders b) = [''canceled'', ''canceled'', ''live''] \<and>
       map o_status (orders (snd (cancel_order env_ok ''b2'' b))) =
         [''canceled'', ''canceled'', ''canceled'']" ..
  note r = rs[THEN conjunct1]
  have x: "exec env_ok (Cancel ''b2'') b = Some (snd (cancel_order env_ok ''b2'' b))" by simp
  from registry_status_invariant[OF r] x
  have "list_all status_ok (orders b) \<and>
        evolves (orders b) (orders (snd (cancel_order env_ok ''b2'' b)))" by blast
  with rs show ?thesis by (intro exI[of _ b]) blast
qed

section \<open>Returning, and the class without \<open>get_market_min_size\<close>\<close>

lemma place_limit_order_tick: "tick b < tick (snd (place_limit_order env m t sd sz pr fee b))"
  by (auto simp: place_limit_order_def place_limit_order_body_def bump_def Let_def split: sum.splits)

lemma cancel_active_tick: "tick b \<le> tick (cancel_active env active b)"
  by (cases active) (simp_all add: cancel_active_def cancel_order_frame)

lemma strategy_cycle_tick:
  "tick b < tick (fst (strategy_cycle env m t sz sp (b, ab, asl)))"
proof (cases "fst (get_mid_price env m t b) = 0")
  case True
  then show ?thesis by (simp add: strategy_cycle_skip get_mid_price_def bump_def)
next
  case False
  let ?b1 = "snd (get_mid_price env m t b)"
  let ?b3 = "cancel_active env asl (cancel_active env ab ?b1)"
  from strategy_cycle_quote[OF False, of sz sp ab asl] obtain p1 p2 where
    c: "fst (strategy_cycle env m t sz sp (b, ab, asl)) =
        bump (snd (place_limit_order env m t SELL sz p2 0
              (snd (place_limit_order env m t BUY sz p1 0 ?b3))))"
    by auto
  have "tick b < tick ?b1" by (simp add: get_mid_price_def bump_def)
  also have "\<dots> \<le> tick ?b3"
    using cancel_active_tick[of ?b1 env ab] cancel_active_tick[of "cancel_active env ab ?b1" env asl]
    by linarith
  also have "\<dots> < tick (snd (place_limit_order env m t BUY sz p1 0 ?b3))"
    by (rule place_limit_order_tick)
  also have "\<dots> < tick (snd (place_limit_order env m t SELL sz p2 0
              (snd (place_limit_order env m t BUY sz p1 0 ?b3))))"
    by (rule place_limit_order_tick)
  finally show ?thesis by (simp add: c bump_def)
qed

text \<open>
  The loop returns as soon as the clock has reached \<open>end_time\<close>: if every reading from
  the \<open>K\<close>-th call on is at least \<open>end_time\<close>, then \<open>K\<close> passes and one more test are
  enough.
\<close>

lemma run_loop_returns:
  assumes late: "\<forall>k\<ge>K. end_time \<le> e_time env k"
  shows "K \<le> tick (fst ls) + n \<Longrightarrow> \<exists>ls'. run_loop (Suc n) env m t sz sp end_time ls = Some ls'"
proof (induction n arbitrary: ls)
  case 0
  obtain b ab asl where ls: "ls = (b, ab, asl)" by (cases ls) auto
  with 0 late have "\<not> e_time env (tick b) < end_time" by (simp add: not_less)
  with ls show ?case by simp
next
  case (Suc n)
  obtain b ab asl where ls: "ls = (b, ab, asl)" by (cases ls) auto
  show ?case
  proof (cases "e_time env (tick b) < end_time")
    case False
    with ls show ?thesis by simp
  next
    case True
    let ?ls = "strategy_cycle env m t sz sp (bump b, ab, asl)"
    have "tick (bump b) < tick (fst ?ls)" by (rule strategy_cycle_tick)
    with Suc.prems ls have "K \<le> tick (fst ?ls) + n" by (simp add: bump_def)
    from Suc.IH[OF this] obtain ls' where
      r: "run_loop (Suc n) env m t sz sp end_time ?ls = Some ls'" by blast
    have eq: "run_loop (Suc (Suc n)) env m t sz sp end_time ls =
        run_loop (Suc n) env m t sz sp end_time ?ls"
      unfolding ls using True by (subst run_loop.simps(2)) simp
    show ?thesis unfolding eq by (rule exI) (rule r)
  qed
qed

lemma run_strategy_returns:
  assumes "\<forall>k\<ge>K. strategy_end_time env dur b \<le> e_time env k"
  shows "\<exists>b'. run_strategy (Suc K) env m t risk sp dur b = Some b'"
proof -
  have "K \<le> tick (fst (strategy_start b)) + K" by simp
  from run_loop_returns[OF assms this, of m t "fl (risk / 2)" sp] obtain ls' where
    "run_loop (Suc K) env m t (fl (risk / 2)) sp (strategy_end_time env dur b) (strategy_start b)
       = Some ls'" by blast
  then show ?thesis by (cases ls') (simp add: run_strategy_def Let_def)
qed

text \<open>
  The class of the source file defines no \<open>get_market_min_size\<close>, so on a bot of exactly
  this class the call raises each time: every placement fails, the loop never holds an
  active quote, and a run leaves the registry as it found it.
\<close>

lemma place_without_min_size:
  assumes "\<forall>n mk. isl (e_min_size env n mk)"
  shows "\<not> has_order_id (fst (place_limit_order env m t sd sz pr fee b)) \<and>
         orders (snd (place_limit_order env m t sd sz pr fee b)) = orders b \<and>
         sent (snd (place_limit_order env m t sd sz pr fee b)) = sent b"
proof -
  from assms[rule_format, of "tick b" m] obtain e where "e_min_size env (tick b) m = Inl e"
    by (cases "e_min_size env (tick b) m") auto
  then show ?thesis
    by (simp add: place_limit_order_def place_limit_order_body_def bump_def failure_result_no_id)
qed

lemma cycle_without_min_size:
  assumes "\<forall>n mk. isl (e_min_size env n mk)"
  shows "orders (fst (strategy_cycle env m t sz sp (b, None, None))) = orders b \<and>
         snd (strategy_cycle env m t sz sp (b, None, None)) = (None, None)"
proof (cases "fst (get_mid_price env m t b) = 0")
  case True
  then show ?thesis by (simp add: strategy_cycle_skip bump_frame get_mid_price_frame)
next
  case False
  from strategy_cycle_quote[OF False, of sz sp None None] obtain p1 p2 where
    c: "strategy_cycle env m t sz sp (b, None, None) =
     (bump (snd (place_limit_order env m t SELL sz p2 0
              (snd (place_limit_order env m t BUY sz p1 0 (snd (get_mid_price env m t b)))))),
      track (fst (place_limit_order env m t BUY sz p1 0 (snd (get_mid_price env m t b))))
            (snd (place_limit_order env m t BUY sz p1 0 (snd (get_mid_price env m t b)))),
      track (fst (place_limit_order env m t SELL sz p2 0
              (snd (place_limit_order env m t BUY sz p1 0 (snd (get_mid_price env m t b))))))
            (snd (place_limit_order env m t SELL sz p2 0
              (snd (place_limit_order env m t BUY sz p1 0 (snd (get_mid_price env m t b)))))))"
    by (auto simp: cancel_active_def)
  show ?thesis
    unfolding c
    using place_without_min_size[OF assms, of m t BUY sz p1 0 "snd (get_mid_price env m t b)"]
      place_without_min_size[OF assms, of m t SELL sz p2 0
        "snd (place_limit_order env m t BUY sz p1 0 (snd (get_mid_price env m t b)))"]
    by (simp add: track_none bump_frame get_mid_price_frame)
qed

lemma run_without_min_size:
  assumes nm: "\<forall>n mk. isl (e_min_size env n mk)"
    and r: "run_strategy n env m t risk sp dur b = Some b'"
  shows "orders b' = orders b"
proof -
  let ?P = "\<lambda>ls :: loop_state. orders (fst ls) = orders b \<and> snd ls = (None, None)"
  from r obtain b1 ab asl where
    l: "run_loop n env m t (fl (risk / 2)) sp (strategy_end_time env dur b) (strategy_start b) = Some (b1, ab, asl)"
    and b': "b' = cancel_active env asl (cancel_active env ab b1)"
    by (auto simp: run_strategy_def Let_def split: option.splits)
  have start: "?P (strategy_start b)" by (simp add: strategy_start_def bump_frame)
  have "?P (b1, ab, asl)"
  proof (rule run_loop_invariant[where P = ?P, OF _ _ start l])
    fix b0 ab0 asl0 assume p: "?P (b0, ab0, asl0)"
    with cycle_without_min_size[OF nm, of m t "fl (risk / 2)" sp "bump b0"]
    show "?P (strategy_cycle env m t (fl (risk / 2)) sp (bump b0, ab0, asl0))"
      by (simp add: bump_frame)
  next
    fix b0 ab0 asl0 assume "?P (b0, ab0, asl0)"
    then show "?P (bump b0, ab0, asl0)" by (simp add: bump_frame)
  qed
  with b' show ?thesis by (simp add: cancel_active_def)
qed

end
